theory Spec2Isabelle
  imports Complex_Main "HOL-Library.AList"
begin

section \<open>The forecasting server: data model\<close>

text \<open>
  The backend is one Node.js module. Its state is two module-level variables
  (\<open>salesData\<close>, \<open>currentDataFile\<close>) and the artifact directory \<open>model/\<close> on
  disk. Request handlers run to completion; work that Node performs later (the rows a
  read stream emits) is kept in an explicit queue of pending tasks.
\<close>

subsection \<open>JavaScript values\<close>

text \<open>
  A JavaScript number is NaN, an infinity or a finite value. A finite value is kept as
  the decimal \<open>m * 10^e\<close> its text denotes, with \<open>m\<close> not divisible by ten (zero is
  \<open>Fin 0 0\<close>; the sign of a zero is not kept). Overflow to an infinity and underflow to
  zero are modelled, the rounding to the nearest double in between is not.
\<close>

datatype jsnum = NaN | PosInfinity | NegInfinity | Fin int int

text \<open>
  What reading a property of a row yields: the string csv-parser produced, a number
  written over it, \<open>undefined\<close>, or a member inherited from \<open>Object.prototype\<close> (a
  function, or the prototype object itself). Rows store only strings and numbers.
\<close>

datatype jsval = Undefined | Inherited | Str string | Num jsnum

type_synonym raw_row = "(string \<times> string) list"
type_synonym row = "(string \<times> jsval) list"

datatype json =
    JNull
  | JBool bool
  | JNumber jsnum
  | JString string
  | JArray "json list"
  | JObject "(string \<times> json) list"

subsection \<open>Files, the artifact directory and the server state\<close>

text \<open>
  A file of the artifact directory, seen through the three operations the server applies
  to it: \<open>unlinkSync\<close> (which throws when the entry cannot be removed),
  \<open>readFileSync(_, 'utf8')\<close> (\<open>None\<close> when it throws) and the records csv-parser
  emits when the file is streamed through it. The directory is the list of its entries in
  the order \<open>readdirSync\<close> lists them.
\<close>

record file_entry =
  unlinkable :: bool
  text_of :: "string option"
  records :: "raw_row list"

type_synonym directory = "(string \<times> file_entry) list"

datatype fs_error = ENOENT | EPERM

text \<open>A read stream created by \<open>loadData\<close>: the file name and the target column it captured.\<close>

datatype task = ReadStream string string

record server =
  salesData :: "row list"
  currentDataFile :: string
  model_dir :: directory
  venv_python :: bool
  pending :: "task list"

record response =
  status :: nat
  body :: json

record spawned =
  cmd :: string
  args :: "string list"
  cwd :: string

section \<open>String primitives\<close>

definition endsWith :: "string \<Rightarrow> string \<Rightarrow> bool" where
  "endsWith s t = (length t \<le> length s \<and> drop (length s - length t) s = t)"

definition starts_with :: "string \<Rightarrow> string \<Rightarrow> bool" where
  "starts_with s t = (take (length t) s = t)"

text \<open>\<open>String.prototype.includes\<close>: \<open>t\<close> occurs in \<open>s\<close>.\<close>

fun str_includes :: "string \<Rightarrow> string \<Rightarrow> bool" where
  "str_includes [] t = (t = [])"
| "str_includes (c # cs) t = (starts_with (c # cs) t \<or> str_includes cs t)"

text \<open>
  \<open>toLowerCase\<close> on the ASCII letters. Strings are byte sequences (UTF-8). The two
  characters outside ASCII whose lower case holds an ASCII letter (the Kelvin sign, the
  dotted capital I) cannot complete the words \<open>date\<close> or \<open>time\<close>, so the searches
  for these below see what JavaScript sees.
\<close>

definition lower_char :: "char \<Rightarrow> char" where
  "lower_char c =
     (case map_of (zip ''ABCDEFGHIJKLMNOPQRSTUVWXYZ'' ''abcdefghijklmnopqrstuvwxyz'') c of
        Some l \<Rightarrow> l
      | None \<Rightarrow> c)"

definition toLowerCase :: "string \<Rightarrow> string" where
  "toLowerCase s = map lower_char s"

text \<open>\<open>indexOf\<close> and \<open>lastIndexOf\<close> of one character: the position, or -1.\<close>

fun indexOf :: "string \<Rightarrow> char \<Rightarrow> int" where
  "indexOf [] c = -1"
| "indexOf (x # xs) c =
     (if x = c then 0 else (let i = indexOf xs c in if i = -1 then -1 else i + 1))"

definition lastIndexOf :: "string \<Rightarrow> char \<Rightarrow> int" where
  "lastIndexOf s c =
     (let i = indexOf (rev s) c in if i = -1 then -1 else int (length s) - 1 - i)"

text \<open>
  \<open>String.prototype.substring(start, end)\<close>: both arguments are clamped to the string,
  and swapped when the first is the larger.
\<close>

definition substring :: "string \<Rightarrow> int \<Rightarrow> int \<Rightarrow> string" where
  "substring s start end' =
     (let len = int (length s);
          a = min (max start 0) len;
          b = min (max end' 0) len;
          lo = min a b;
          hi = max a b
      in take (nat (hi - lo)) (drop (nat lo) s))"

section \<open>Numbers and their text\<close>

definition is_digit :: "char \<Rightarrow> bool" where
  "is_digit c = (c \<in> set ''0123456789'')"

definition digit_table :: "(char \<times> nat) list" where
  "digit_table =
     [(CHR ''0'', 0), (CHR ''1'', 1), (CHR ''2'', 2), (CHR ''3'', 3), (CHR ''4'', 4),
      (CHR ''5'', 5), (CHR ''6'', 6), (CHR ''7'', 7), (CHR ''8'', 8), (CHR ''9'', 9),
      (CHR ''a'', 10), (CHR ''b'', 11), (CHR ''c'', 12), (CHR ''d'', 13), (CHR ''e'', 14),
      (CHR ''f'', 15),
      (CHR ''A'', 10), (CHR ''B'', 11), (CHR ''C'', 12), (CHR ''D'', 13), (CHR ''E'', 14),
      (CHR ''F'', 15)]"

text \<open>The value of a digit in a radix up to 16, if the character is one.\<close>

definition digit_in :: "nat \<Rightarrow> char \<Rightarrow> nat option" where
  "digit_in radix c =
     (case map_of digit_table c of
        None \<Rightarrow> None
      | Some v \<Rightarrow> if v < radix then Some v else None)"

definition digits_val :: "nat \<Rightarrow> string \<Rightarrow> nat" where
  "digits_val radix ds = foldl (\<lambda>acc c. acc * radix + (case digit_in radix c of None \<Rightarrow> 0 | Some v \<Rightarrow> v)) 0 ds"

text \<open>The decimal digits of a natural number, most significant first.\<close>

function nat_digits :: "nat \<Rightarrow> string" where
  "nat_digits n =
     (if n < 10 then [''0123456789'' ! n]
      else nat_digits (n div 10) @ [''0123456789'' ! (n mod 10)])"
  by pat_completeness auto
termination
  by (relation "measure id") auto

declare nat_digits.simps [simp del]

text \<open>
  The double nearest to \<open>m * 10^e\<close>, as far as the range goes: at or above
  \<open>2^1024 - 2^970\<close> the value rounds to an infinity, at or below \<open>2^-1075\<close> to zero.
\<close>

definition exceeds_double :: "int \<Rightarrow> int \<Rightarrow> bool" where
  "exceeds_double a e =
     (if 0 \<le> e then 2 ^ 1024 - 2 ^ 970 \<le> a * 10 ^ nat e
      else (2 ^ 1024 - 2 ^ 970) * 10 ^ nat (- e) \<le> a)"

definition below_double :: "int \<Rightarrow> int \<Rightarrow> bool" where
  "below_double a e = (e < 0 \<and> a * 2 ^ 1075 \<le> 10 ^ nat (- e))"

text \<open>
  The number a sign, a string of decimal digits and a power of ten denote: trailing
  zeros of the digits move into the exponent, so equal values get equal representations.
\<close>

definition decimal :: "bool \<Rightarrow> string \<Rightarrow> int \<Rightarrow> jsnum" where
  "decimal neg ds e =
     (let sig = rev (dropWhile (\<lambda>c. c = CHR ''0'') (rev ds));
          a = int (digits_val 10 sig);
          e' = e + int (length ds) - int (length sig)
      in if a = 0 then Fin 0 0
         else if exceeds_double a e' then (if neg then NegInfinity else PosInfinity)
         else if below_double a e' then Fin 0 0
         else Fin (if neg then - a else a) e')"

definition of_natural :: "bool \<Rightarrow> nat \<Rightarrow> jsnum" where
  "of_natural neg n = decimal neg (nat_digits n) 0"

text \<open>\<open>Number.prototype.toString\<close> (radix 10), following the steps of Number::toString.\<close>

definition number_to_string :: "jsnum \<Rightarrow> string" where
  "number_to_string x =
     (case x of
        NaN \<Rightarrow> ''NaN''
      | PosInfinity \<Rightarrow> ''Infinity''
      | NegInfinity \<Rightarrow> ''-Infinity''
      | Fin m e \<Rightarrow>
          if m = 0 then ''0''
          else (if m < 0 then ''-'' else '''') @
            (let ds = nat_digits (nat \<bar>m\<bar>);
                 k = int (length ds);
                 n = k + e
             in if k \<le> n \<and> n \<le> 21 then ds @ replicate (nat (n - k)) CHR ''0''
                else if 0 < n \<and> n \<le> 21 then take (nat n) ds @ ''.'' @ drop (nat n) ds
                else if - 6 < n \<and> n \<le> 0 then ''0.'' @ replicate (nat (- n)) CHR ''0'' @ ds
                else (let ex = n - 1;
                          es = (if ex < 0 then ''-'' else ''+'') @ nat_digits (nat \<bar>ex\<bar>)
                      in if k = 1 then ds @ ''e'' @ es
                         else take 1 ds @ ''.'' @ drop 1 ds @ ''e'' @ es)))"

text \<open>
  White space as \<open>parseFloat\<close>, \<open>parseInt\<close> and \<open>Number\<close> strip it: tab, line feed,
  vertical tab, form feed, carriage return and space (the white space outside ASCII is not
  modelled).
\<close>

definition is_ws :: "char \<Rightarrow> bool" where
  "is_ws c = (c \<in> set [CHR 0x09, CHR 0x0A, CHR 0x0B, CHR 0x0C, CHR 0x0D, CHR 0x20])"

definition take_sign :: "string \<Rightarrow> bool \<times> string" where
  "take_sign s =
     (case s of
        [] \<Rightarrow> (False, s)
      | c # r \<Rightarrow> if c = CHR ''-'' then (True, r) else if c = CHR ''+'' then (False, r)
                 else (False, s))"

text \<open>
  An optional ExponentPart in front of \<open>s\<close>: its value and what follows it. Where no
  digits follow the \<open>e\<close> there is no exponent and nothing is consumed.
\<close>

definition str_exponent :: "string \<Rightarrow> int \<times> string" where
  "str_exponent s =
     (case s of
        [] \<Rightarrow> (0, s)
      | c # r \<Rightarrow>
          if c = CHR ''e'' \<or> c = CHR ''E''
          then (let (neg, r') = take_sign r; ds = takeWhile is_digit r'
                in if ds = [] then (0, s)
                   else ((if neg then - int (digits_val 10 ds) else int (digits_val 10 ds)),
                         dropWhile is_digit r'))
          else (0, s))"

text \<open>
  The longest prefix of \<open>s\<close> that is a StrDecimalLiteral (a signed \<open>Infinity\<close> or a
  signed decimal literal): its value and the rest of \<open>s\<close>; \<open>None\<close> when no prefix is one.
\<close>

definition str_decimal_prefix :: "string \<Rightarrow> (jsnum \<times> string) option" where
  "str_decimal_prefix s =
     (let (neg, s1) = take_sign s
      in if starts_with s1 ''Infinity''
         then Some (if neg then NegInfinity else PosInfinity, drop 8 s1)
         else (let ip = takeWhile is_digit s1;
                   r1 = dropWhile is_digit s1;
                   (fp, r2) = (case r1 of
                                 [] \<Rightarrow> ([], r1)
                               | c # r \<Rightarrow> if c = CHR ''.''
                                          then (takeWhile is_digit r, dropWhile is_digit r)
                                          else ([], r1))
               in if ip = [] \<and> fp = [] then None
                  else (let (ex, r3) = str_exponent r2
                        in Some (decimal neg (ip @ fp) (ex - int (length fp)), r3))))"

definition parseFloat :: "string \<Rightarrow> jsnum" where
  "parseFloat s =
     (case str_decimal_prefix (dropWhile is_ws s) of
        None \<Rightarrow> NaN
      | Some (v, rest) \<Rightarrow> v)"

text \<open>\<open>parseInt\<close> with no radix argument: radix 16 after a \<open>0x\<close> prefix, else 10.\<close>

definition parseInt :: "string \<Rightarrow> jsnum" where
  "parseInt s =
     (let (neg, s1) = take_sign (dropWhile is_ws s);
          hex = (starts_with s1 ''0x'' \<or> starts_with s1 ''0X'');
          radix = (if hex then 16 else 10);
          s2 = (if hex then drop 2 s1 else s1);
          z = takeWhile (\<lambda>c. digit_in radix c \<noteq> None) s2
      in if z = [] then NaN else of_natural neg (digits_val radix z))"

text \<open>
  \<open>Number(s)\<close> of a string: the whole string, white space trimmed, must be empty, a
  StrDecimalLiteral or an unsigned binary, octal or hexadecimal integer literal.
\<close>

definition radix_literal :: "nat \<Rightarrow> string \<Rightarrow> jsnum" where
  "radix_literal radix ds =
     (if ds \<noteq> [] \<and> list_all (\<lambda>c. digit_in radix c \<noteq> None) ds
      then of_natural False (digits_val radix ds)
      else NaN)"

definition string_to_number :: "string \<Rightarrow> jsnum" where
  "string_to_number s =
     (let t = rev (dropWhile is_ws (rev (dropWhile is_ws s)))
      in if t = [] then Fin 0 0
         else if starts_with t ''0x'' \<or> starts_with t ''0X'' then radix_literal 16 (drop 2 t)
         else if starts_with t ''0o'' \<or> starts_with t ''0O'' then radix_literal 8 (drop 2 t)
         else if starts_with t ''0b'' \<or> starts_with t ''0B'' then radix_literal 2 (drop 2 t)
         else (case str_decimal_prefix t of
                 None \<Rightarrow> NaN
               | Some (v, rest) \<Rightarrow> if rest = [] then v else NaN))"

text \<open>
  The built-ins applied to a property value: the value is converted to a string first.
  The text of an inherited member (a function's source, or \<open>[object Object]\<close>) starts
  with no number.
\<close>

definition parseFloat_val :: "jsval \<Rightarrow> jsnum" where
  "parseFloat_val v =
     (case v of
        Undefined \<Rightarrow> parseFloat ''undefined''
      | Inherited \<Rightarrow> NaN
      | Str s \<Rightarrow> parseFloat s
      | Num n \<Rightarrow> parseFloat (number_to_string n))"

definition parseInt_val :: "jsval \<Rightarrow> jsnum" where
  "parseInt_val v =
     (case v of
        Undefined \<Rightarrow> parseInt ''undefined''
      | Inherited \<Rightarrow> NaN
      | Str s \<Rightarrow> parseInt s
      | Num n \<Rightarrow> parseInt (number_to_string n))"

definition to_number :: "jsval \<Rightarrow> jsnum" where
  "to_number v =
     (case v of
        Undefined \<Rightarrow> NaN
      | Inherited \<Rightarrow> NaN
      | Str s \<Rightarrow> string_to_number s
      | Num n \<Rightarrow> n)"

definition isNaN :: "jsval \<Rightarrow> bool" where
  "isNaN v = (to_number v = NaN)"

text \<open>Truthiness, as \<open>if (v)\<close> and \<open>&&\<close> test it.\<close>

definition truthy :: "jsval \<Rightarrow> bool" where
  "truthy v =
     (case v of
        Undefined \<Rightarrow> False
      | Inherited \<Rightarrow> True
      | Str s \<Rightarrow> s \<noteq> []
      | Num n \<Rightarrow> n \<noteq> NaN \<and> n \<noteq> Fin 0 0)"

section \<open>The upload handler: cleanup and spawn\<close>

text \<open>\<open>fs.existsSync\<close> and \<open>fs.unlinkSync\<close> on an entry of the artifact directory.\<close>

definition existsSync :: "directory \<Rightarrow> string \<Rightarrow> bool" where
  "existsSync d name = (map_of d name \<noteq> None)"

definition unlinkSync :: "string \<Rightarrow> directory \<Rightarrow> fs_error + directory" where
  "unlinkSync name d =
     (case map_of d name of
        None \<Rightarrow> Inl ENOENT
      | Some f \<Rightarrow> if unlinkable f then Inr (filter (\<lambda>e. fst e \<noteq> name) d) else Inl EPERM)"

text \<open>The condition of lines 103-107: which entries the cleanup deletes.\<close>

definition should_delete :: "string \<Rightarrow> string \<Rightarrow> bool" where
  "should_delete originalname f =
     ((endsWith f ''.csv'' \<and> f \<noteq> originalname) \<or> endsWith f ''.pkl''
       \<or> f = ''model_metadata.json'')"

text \<open>
  The \<open>forEach\<close> over the listing, inside the \<open>try\<close>. A throwing \<open>unlinkSync\<close>
  leaves the loop; the deletions made so far stay. The result is the directory and the
  error the \<open>catch\<close> block receives, if any.
\<close>

fun cleanup_loop :: "string \<Rightarrow> string list \<Rightarrow> directory \<Rightarrow> directory \<times> fs_error option" where
  "cleanup_loop originalname [] d = (d, None)"
| "cleanup_loop originalname (f # fs) d =
     (if should_delete originalname f
      then (case unlinkSync f d of
              Inl e \<Rightarrow> (d, Some e)
            | Inr d' \<Rightarrow> cleanup_loop originalname fs d')
      else cleanup_loop originalname fs d)"

text \<open>The \<open>try/catch\<close> of lines 97-115: the error is logged and dropped.\<close>

definition cleanup :: "string \<Rightarrow> directory \<Rightarrow> directory" where
  "cleanup originalname d = fst (cleanup_loop originalname (map fst d) d)"

text \<open>multer's disk storage writes the uploaded file under its original name.\<close>

definition multer_store :: "(string \<times> file_entry) option \<Rightarrow> server \<Rightarrow> server" where
  "multer_store upl s =
     (case upl of
        None \<Rightarrow> s
      | Some (name, f) \<Rightarrow> s\<lparr>model_dir := AList.update name f (model_dir s)\<rparr>)"

text \<open>
  The synchronous part of the \<open>/api/upload\<close> handler (lines 90-133), given
  \<open>req.file.originalname\<close> if a file came with the request. It answers 400, or cleans
  up, overwrites \<open>currentDataFile\<close> and spawns the training process.
\<close>

definition upload_handler :: "string option \<Rightarrow> server \<Rightarrow> server \<times> (response + spawned)" where
  "upload_handler req_file s =
     (case req_file of
        None \<Rightarrow>
          (s, Inl \<lparr>status = 400, body = JObject [(''error'', JString ''No file uploaded'')]\<rparr>)
      | Some originalname \<Rightarrow>
          (let s1 = s\<lparr>model_dir := cleanup originalname (model_dir s)\<rparr>;
               s2 = s1\<lparr>currentDataFile := originalname\<rparr>;
               pythonPath = ''model/venv/Scripts/python.exe'';
               c = (if venv_python s2 then pythonPath else ''python'')
           in (s2, Inr \<lparr>cmd = c, args = [''model/train.py'', currentDataFile s2],
                        cwd = ''model''\<rparr>)))"

section \<open>JSON.parse\<close>

text \<open>
  \<open>JSON.parse\<close> as the JSON grammar defines it. A text that is not JSON makes it throw;
  the model returns \<open>None\<close>. Object members are stored in the order of their first
  occurrence, a repeated key keeping its last value.
\<close>

definition json_ws :: "char \<Rightarrow> bool" where
  "json_ws c = (c \<in> set [CHR 0x20, CHR 0x09, CHR 0x0A, CHR 0x0D])"

definition skip_ws :: "string \<Rightarrow> string" where
  "skip_ws s = dropWhile json_ws s"

text \<open>A JSON number in front of \<open>s\<close>: no leading zeros, digits on both sides of the point.\<close>

definition json_fraction :: "string \<Rightarrow> (string \<times> string) option" where
  "json_fraction s =
     (case s of
        [] \<Rightarrow> Some ([], s)
      | c # r \<Rightarrow>
          if c = CHR ''.''
          then (let fp = takeWhile is_digit r
                in if fp = [] then None else Some (fp, dropWhile is_digit r))
          else Some ([], s))"

definition json_exponent :: "string \<Rightarrow> (int \<times> string) option" where
  "json_exponent s =
     (case s of
        [] \<Rightarrow> Some (0, s)
      | c # r \<Rightarrow>
          if c = CHR ''e'' \<or> c = CHR ''E''
          then (let (neg, r') = take_sign r; ds = takeWhile is_digit r'
                in if ds = [] then None
                   else Some ((if neg then - int (digits_val 10 ds) else int (digits_val 10 ds)),
                              dropWhile is_digit r'))
          else Some (0, s))"

definition json_number :: "string \<Rightarrow> (jsnum \<times> string) option" where
  "json_number s =
     (let (neg, s1) = (case s of
                         [] \<Rightarrow> (False, s)
                       | c # r \<Rightarrow> if c = CHR ''-'' then (True, r) else (False, s));
          ip = takeWhile is_digit s1;
          r1 = dropWhile is_digit s1
      in if ip = [] \<or> (1 < length ip \<and> hd ip = CHR ''0'') then None
         else (case json_fraction r1 of
                 None \<Rightarrow> None
               | Some (fp, r2) \<Rightarrow>
                   (case json_exponent r2 of
                      None \<Rightarrow> None
                    | Some (ex, r3) \<Rightarrow>
                        Some (decimal neg (ip @ fp) (ex - int (length fp)), r3))))"

text \<open>The UTF-8 bytes of a code point, for the \<open>\u\<close> escapes.\<close>

definition utf8_encode :: "nat \<Rightarrow> string" where
  "utf8_encode cp =
     (if cp < 0x80 then [char_of cp]
      else if cp < 0x800 then [char_of (0xC0 + cp div 0x40), char_of (0x80 + cp mod 0x40)]
      else if cp < 0x10000
        then [char_of (0xE0 + cp div 0x1000), char_of (0x80 + cp div 0x40 mod 0x40),
              char_of (0x80 + cp mod 0x40)]
      else [char_of (0xF0 + cp div 0x40000), char_of (0x80 + cp div 0x1000 mod 0x40),
            char_of (0x80 + cp div 0x40 mod 0x40), char_of (0x80 + cp mod 0x40)])"

definition hex4 :: "string \<Rightarrow> nat option" where
  "hex4 s =
     (if length s = 4 \<and> list_all (\<lambda>c. digit_in 16 c \<noteq> None) s
      then Some (digits_val 16 s) else None)"

definition simple_escape :: "char \<Rightarrow> char option" where
  "simple_escape e =
     map_of [(CHR 0x22, CHR 0x22), (CHR 0x5C, CHR 0x5C), (CHR ''/'', CHR ''/''),
             (CHR ''b'', CHR 0x08), (CHR ''f'', CHR 0x0C), (CHR ''n'', CHR 0x0A),
             (CHR ''r'', CHR 0x0D), (CHR ''t'', CHR 0x09)] e"

text \<open>
  The characters of a JSON string after its opening quote: the decoded string and what
  follows the closing quote. A \<open>\u\<close> escape of a high surrogate followed by one of a low
  surrogate is one code point.
\<close>

function json_chars :: "string \<Rightarrow> (string \<times> string) option" where
  "json_chars [] = None"
| "json_chars (c # cs) =
     (if c = CHR 0x22 then Some ([], cs)
      else if c = CHR 0x5C then
        (case cs of
           [] \<Rightarrow> None
         | e # r \<Rightarrow>
             if e = CHR ''u'' then
               (case hex4 (take 4 r) of
                  None \<Rightarrow> None
                | Some cu \<Rightarrow>
                    (case (if 0xD800 \<le> cu \<and> cu < 0xDC00 \<and> take 2 (drop 4 r) = [CHR 0x5C, CHR ''u'']
                           then hex4 (take 4 (drop 6 r)) else None) of
                       None \<Rightarrow>
                         map_option (\<lambda>(str, rest). (utf8_encode cu @ str, rest))
                           (json_chars (drop 4 r))
                     | Some lo \<Rightarrow>
                         if 0xDC00 \<le> lo \<and> lo < 0xE000
                         then map_option
                                (\<lambda>(str, rest).
                                   (utf8_encode (0x10000 + (cu - 0xD800) * 0x400 + (lo - 0xDC00)) @ str,
                                    rest))
                                (json_chars (drop 10 r))
                         else map_option (\<lambda>(str, rest). (utf8_encode cu @ str, rest))
                                (json_chars (drop 4 r))))
             else (case simple_escape e of
                     None \<Rightarrow> None
                   | Some d \<Rightarrow> map_option (\<lambda>(str, rest). (d # str, rest)) (json_chars r)))
      else if (of_char c :: nat) < 0x20 then None
      else map_option (\<lambda>(str, rest). (c # str, rest)) (json_chars cs))"
  by pat_completeness auto
termination
  by (relation "measure length") auto

declare json_chars.simps [simp del]

text \<open>
  A JSON value in front of \<open>s\<close>, and what follows it. The first argument bounds the
  number of nested calls; \<open>json_parse\<close> starts with more than any text can use. The
  elements of an array and the members of an object are read by \<open>json_elements\<close> and
  \<open>json_members\<close>, which expect a comma and an item, or the closing bracket.
\<close>

fun json_value :: "nat \<Rightarrow> string \<Rightarrow> (json \<times> string) option"
  and json_elements :: "nat \<Rightarrow> json list \<Rightarrow> string \<Rightarrow> (json list \<times> string) option"
  and json_members ::
    "nat \<Rightarrow> (string \<times> json) list \<Rightarrow> string \<Rightarrow> ((string \<times> json) list \<times> string) option"
where
  "json_value 0 s = None"
| "json_value (Suc n) s =
     (case skip_ws s of
        [] \<Rightarrow> None
      | c # r \<Rightarrow>
          if c = CHR ''['' then
            (case skip_ws r of
               [] \<Rightarrow> None
             | c' # r' \<Rightarrow>
                 if c' = CHR '']'' then Some (JArray [], r')
                 else map_option (\<lambda>(vs, rest). (JArray vs, rest))
                        (json_elements n [] (CHR '','' # r)))
          else if c = CHR ''{'' then
            (case skip_ws r of
               [] \<Rightarrow> None
             | c' # r' \<Rightarrow>
                 if c' = CHR ''}'' then Some (JObject [], r')
                 else map_option (\<lambda>(kvs, rest). (JObject kvs, rest))
                        (json_members n [] (CHR '','' # r)))
          else if c = CHR 0x22 then
            map_option (\<lambda>(str, rest). (JString str, rest)) (json_chars r)
          else if starts_with (c # r) ''true'' then Some (JBool True, drop 4 (c # r))
          else if starts_with (c # r) ''false'' then Some (JBool False, drop 5 (c # r))
          else if starts_with (c # r) ''null'' then Some (JNull, drop 4 (c # r))
          else map_option (\<lambda>(x, rest). (JNumber x, rest)) (json_number (c # r)))"
| "json_elements 0 acc s = None"
| "json_elements (Suc n) acc s =
     (case skip_ws s of
        [] \<Rightarrow> None
      | c # r \<Rightarrow>
          if c = CHR '']'' then Some (acc, r)
          else if c = CHR '','' then
            (case json_value n r of
               None \<Rightarrow> None
             | Some (v, r1) \<Rightarrow> json_elements n (acc @ [v]) r1)
          else None)"
| "json_members 0 acc s = None"
| "json_members (Suc n) acc s =
     (case skip_ws s of
        [] \<Rightarrow> None
      | c # r \<Rightarrow>
          if c = CHR ''}'' then Some (acc, r)
          else if c = CHR '','' then
            (case skip_ws r of
               [] \<Rightarrow> None
             | q # r1 \<Rightarrow>
                 if q = CHR 0x22 then
                   (case json_chars r1 of
                      None \<Rightarrow> None
                    | Some (k, r2) \<Rightarrow>
                        (case skip_ws r2 of
                           [] \<Rightarrow> None
                         | colon # r3 \<Rightarrow>
                             if colon = CHR '':'' then
                               (case json_value n r3 of
                                  None \<Rightarrow> None
                                | Some (v, r4) \<Rightarrow> json_members n (AList.update k v acc) r4)
                             else None))
                 else None)
          else None)"

definition json_parse :: "string \<Rightarrow> json option" where
  "json_parse s =
     (case json_value (2 * length s + 1) s of
        None \<Rightarrow> None
      | Some (v, rest) \<Rightarrow> if skip_ws rest = [] then Some v else None)"

text \<open>The conversions of a parsed value that the server relies on.\<close>

definition json_truthy :: "json \<Rightarrow> bool" where
  "json_truthy v =
     (case v of
        JNull \<Rightarrow> False
      | JBool b \<Rightarrow> b
      | JNumber n \<Rightarrow> n \<noteq> NaN \<and> n \<noteq> Fin 0 0
      | JString s \<Rightarrow> s \<noteq> []
      | JArray vs \<Rightarrow> True
      | JObject kvs \<Rightarrow> True)"

text \<open>
  \<open>ToString\<close> of a parsed value, which is what \<open>row[v]\<close> uses as the property name: an
  array joins its elements with commas (\<open>null\<close> giving the empty string), an object is
  \<open>[object Object]\<close>.
\<close>

fun join :: "string \<Rightarrow> string list \<Rightarrow> string" where
  "join sep [] = []"
| "join sep [x] = x"
| "join sep (x # y # ys) = x @ sep @ join sep (y # ys)"

fun json_to_string :: "json \<Rightarrow> string" where
  "json_to_string JNull = ''null''"
| "json_to_string (JBool b) = (if b then ''true'' else ''false'')"
| "json_to_string (JNumber n) = number_to_string n"
| "json_to_string (JString s) = s"
| "json_to_string (JArray vs) =
     join '','' (map (\<lambda>v. if v = JNull then [] else json_to_string v) vs)"
| "json_to_string (JObject kvs) = ''[object Object]''"

section \<open>The cache loader\<close>

subsection \<open>Rows as objects\<close>

text \<open>
  csv-parser builds each row as a plain object, assigning \<open>row[header] = cell\<close> cell by
  cell. A raw row is that list of assignments. Assigning a string to \<open>__proto__\<close> has no
  effect. (JavaScript lists keys that are array indices before the others; the model keeps
  the assignment order throughout, which is the same order for every key that contains
  \<open>date\<close> or \<open>time\<close>.)
\<close>

definition assign :: "string \<Rightarrow> jsval \<Rightarrow> row \<Rightarrow> row" where
  "assign k v r = (if k = ''__proto__'' then r else AList.update k v r)"

definition object_of :: "raw_row \<Rightarrow> row" where
  "object_of raw = foldl (\<lambda>r (k, cell). assign k (Str cell) r) [] raw"

definition object_prototype_keys :: "string list" where
  "object_prototype_keys =
     [''constructor'', ''toString'', ''toLocaleString'', ''valueOf'', ''hasOwnProperty'',
      ''isPrototypeOf'', ''propertyIsEnumerable'', ''__proto__'', ''__defineGetter__'',
      ''__defineSetter__'', ''__lookupGetter__'', ''__lookupSetter__'']"

text \<open>Reading \<open>row[k]\<close>: an own property, else a member of \<open>Object.prototype\<close>, else undefined.\<close>

definition get_prop :: "row \<Rightarrow> string \<Rightarrow> jsval" where
  "get_prop r k =
     (case map_of r k of
        Some v \<Rightarrow> v
      | None \<Rightarrow> if k \<in> set object_prototype_keys then Inherited else Undefined)"

subsection \<open>The row handler (lines 37-61)\<close>

text \<open>Lines 39-44: alias the first column whose name contains \<open>date\<close> or \<open>time\<close>.\<close>

definition date_like :: "string \<Rightarrow> bool" where
  "date_like k =
     (str_includes (toLowerCase k) ''date'' \<or> str_includes (toLowerCase k) ''time'')"

definition map_date :: "row \<Rightarrow> row" where
  "map_date r =
     (if \<not> truthy (get_prop r ''date'')
      then (case find date_like (map fst r) of
              None \<Rightarrow> r
            | Some dateKey \<Rightarrow> if dateKey \<noteq> [] then assign ''date'' (get_prop r dateKey) r else r)
      else r)"

text \<open>Lines 46-51: the declared target column first, the literal \<open>sales\<close> column otherwise.\<close>

definition map_target :: "string \<Rightarrow> row \<Rightarrow> row" where
  "map_target targetCol r =
     (if get_prop r targetCol \<noteq> Undefined
      then assign ''sales'' (Num (parseFloat_val (get_prop r targetCol))) r
      else if truthy (get_prop r ''sales'')
      then assign ''sales'' (Num (parseFloat_val (get_prop r ''sales''))) r
      else r)"

text \<open>Lines 53-55: the two legacy columns.\<close>

definition map_legacy :: "row \<Rightarrow> row" where
  "map_legacy r =
     (let r1 = (if truthy (get_prop r ''marketing_spend'')
                then assign ''marketing_spend'' (Num (parseFloat_val (get_prop r ''marketing_spend''))) r
                else r)
      in if truthy (get_prop r1 ''holiday'')
         then assign ''holiday'' (Num (parseInt_val (get_prop r1 ''holiday''))) r1
         else r1)"

definition normalize_row :: "string \<Rightarrow> raw_row \<Rightarrow> row" where
  "normalize_row targetCol raw = map_legacy (map_target targetCol (map_date (object_of raw)))"

text \<open>Line 58: the test that guards the push.\<close>

definition keep :: "row \<Rightarrow> bool" where
  "keep r = (truthy (get_prop r ''date'') \<and> \<not> isNaN (get_prop r ''sales''))"

text \<open>The \<open>'data'\<close> callback: the cache after one record.\<close>

definition on_data :: "string \<Rightarrow> row list \<Rightarrow> raw_row \<Rightarrow> row list" where
  "on_data targetCol cache raw =
     (let r = normalize_row targetCol raw in if keep r then cache @ [r] else cache)"

text \<open>
  The resolved target as the specification words it (step 2 of the row normalisation):
  the floating-point parse of the declared target column if the row has it, else of the
  literal \<open>sales\<close> column if that is present and not empty; no number otherwise.
\<close>

definition spec_resolved_target :: "string \<Rightarrow> row \<Rightarrow> jsnum" where
  "spec_resolved_target targetCol r =
     (if get_prop r targetCol \<noteq> Undefined then parseFloat_val (get_prop r targetCol)
      else if truthy (get_prop r ''sales'') then parseFloat_val (get_prop r ''sales'')
      else NaN)"

subsection \<open>loadData (lines 20-68)\<close>

text \<open>
  Lines 24-32. Everything between \<open>try\<close> and \<open>catch\<close> that can throw leaves
  \<open>targetCol\<close> at \<open>sales\<close>: an unreadable file, a text that is not JSON, and \<open>null\<close>
  (reading a property of \<open>null\<close> is a TypeError). The result is the property name that
  \<open>row[targetCol]\<close> reads.
\<close>

definition resolve_target :: "directory \<Rightarrow> string" where
  "resolve_target d =
     (case map_of d ''model_metadata.json'' of
        None \<Rightarrow> ''sales''
      | Some f \<Rightarrow>
          (case text_of f of
             None \<Rightarrow> ''sales''
           | Some txt \<Rightarrow>
               (case json_parse txt of
                  None \<Rightarrow> ''sales''
                | Some meta \<Rightarrow>
                    (case meta of
                       JObject kvs \<Rightarrow>
                         (case map_of kvs ''target_column'' of
                            None \<Rightarrow> ''sales''
                          | Some v \<Rightarrow> if json_truthy v then json_to_string v else ''sales'')
                     | _ \<Rightarrow> ''sales''))))"

text \<open>
  \<open>loadData\<close> itself only creates the read stream and registers the callbacks: the rows
  reach \<open>salesData\<close> when Node later emits the stream's \<open>'data'\<close> events, after the
  caller of \<open>loadData\<close> has run to its end.
\<close>

definition loadData :: "server \<Rightarrow> server" where
  "loadData s =
     (let targetCol = resolve_target (model_dir s)
      in if existsSync (model_dir s) (currentDataFile s)
         then s\<lparr>pending := pending s @ [ReadStream (currentDataFile s) targetCol]\<rparr>
         else s)"

text \<open>
  The events of one read stream, delivered in one go (Node delivers them in chunks, other
  callbacks running in between). A file that has gone by then makes the stream emit
  \<open>'error'\<close>, for which no listener is registered: the process ends (\<open>None\<close>).
\<close>

definition deliver :: "task \<Rightarrow> server \<Rightarrow> server option" where
  "deliver t s =
     (case t of
        ReadStream name targetCol \<Rightarrow>
          (case map_of (model_dir s) name of
             None \<Rightarrow> None
           | Some f \<Rightarrow> Some (s\<lparr>salesData := foldl (on_data targetCol) (salesData s) (records f)\<rparr>)))"

text \<open>One turn of the event loop on the oldest pending stream.\<close>

definition step :: "server \<Rightarrow> server option" where
  "step s =
     (case pending s of
        [] \<Rightarrow> Some s
      | t # ts \<Rightarrow> deliver t (s\<lparr>pending := ts\<rparr>))"

text \<open>Module start (lines 16-18 and 70).\<close>

definition startup :: "directory \<Rightarrow> bool \<Rightarrow> server" where
  "startup d venv =
     loadData \<lparr>salesData = [], currentDataFile = ''sales_data.csv'', model_dir = d,
               venv_python = venv, pending = []\<rparr>"

text \<open>\<open>GET /api/sales\<close> hands the cache to \<open>res.json\<close>.\<close>

definition get_sales :: "server \<Rightarrow> row list" where
  "get_sales s = salesData s"

section \<open>The upload handler: the training process's events\<close>

text \<open>
  A response is the status and the value handed to \<open>res.json\<close>. Line 144 appends each
  chunk of standard output to \<open>output\<close>.
\<close>

definition on_stdout :: "string \<Rightarrow> string \<Rightarrow> string" where
  "on_stdout output chunk = output @ chunk"

text \<open>The \<open>'error'\<close> listener (lines 137-140).\<close>

definition training_error :: "string \<Rightarrow> server \<Rightarrow> server \<times> response" where
  "training_error message s =
     (s, \<lparr>status = 500,
          body = JObject [(''error'', JString ''Failed to start training script''),
                          (''details'', JString message)]\<rparr>)"

text \<open>The \<open>'close'\<close> listener (lines 151-162); the exit code is \<open>null\<close> after a signal.\<close>

definition training_close :: "int option \<Rightarrow> string \<Rightarrow> server \<Rightarrow> server \<times> response" where
  "training_close code output s =
     (if code = Some 0
      then (loadData (s\<lparr>salesData := []\<rparr>),
            \<lparr>status = 200,
             body = JObject [(''message'', JString ''Data updated and model retrained successfully''),
                             (''output'', JString output)]\<rparr>)
      else (s, \<lparr>status = 500,
                body = JObject [(''error'', JString ''Model training failed''),
                                (''details'', JString output)]\<rparr>))"

text \<open>
  What the spawned training process does, seen from the server: it cannot be started, or
  it runs, rewrites the artifact directory, writes chunks to standard output and closes
  with an exit code.
\<close>

datatype job = LaunchFails string | Runs "directory \<Rightarrow> directory" "string list" "int option"

text \<open>One \<open>/api/upload\<close> request from multer to the response.\<close>

definition upload :: "(string \<times> file_entry) option \<Rightarrow> job \<Rightarrow> server \<Rightarrow> server \<times> response" where
  "upload req job s =
     (case upload_handler (map_option fst req) (multer_store req s) of
        (s1, Inl resp) \<Rightarrow> (s1, resp)
      | (s1, Inr proc) \<Rightarrow>
          (case job of
             LaunchFails message \<Rightarrow> training_error message s1
           | Runs writes chunks code \<Rightarrow>
               training_close code (foldl on_stdout [] chunks)
                 (s1\<lparr>model_dir := writes (model_dir s1)\<rparr>)))"

section \<open>The predict handler (lines 253-269)\<close>

definition predict_failed :: "string \<Rightarrow> response" where
  "predict_failed dataString =
     \<lparr>status = 500,
      body = JObject [(''error'', JString ''Prediction script failed''),
                      (''details'', JString dataString)]\<rparr>"

text \<open>The \<open>'close'\<close> listener of the inference process, given its exit code and \<open>dataString\<close>.\<close>

definition predict_close :: "int option \<Rightarrow> string \<Rightarrow> response" where
  "predict_close code dataString =
     (let jsonStart = indexOf dataString CHR ''{'';
          jsonEnd = lastIndexOf dataString CHR ''}''
      in if jsonStart = -1 \<or> jsonEnd = -1 then predict_failed dataString
         else (let jsonPart = substring dataString jsonStart (jsonEnd + 1)
               in case json_parse jsonPart of
                    None \<Rightarrow> predict_failed dataString
                  | Some result \<Rightarrow> \<lparr>status = 200, body = result\<rparr>))"

section \<open>Example states\<close>

text \<open>A directory in which \<open>A.csv\<close> cannot be removed.\<close>

definition ex_locked_dir :: directory where
  "ex_locked_dir =
     [(''model_metadata.json'', \<lparr>unlinkable = True, text_of = Some ''{}'', records = []\<rparr>),
      (''A.csv'', \<lparr>unlinkable = False, text_of = Some [], records = []\<rparr>),
      (''sales_model.pkl'', \<lparr>unlinkable = True, text_of = None, records = []\<rparr>),
      (''B.csv'', \<lparr>unlinkable = True, text_of = Some [], records = []\<rparr>)]"

text \<open>A removable file that holds the given records.\<close>

definition ex_file :: "raw_row list \<Rightarrow> file_entry" where
  "ex_file rows = \<lparr>unlinkable = True, text_of = None, records = rows\<rparr>"

text \<open>A server that has loaded the one record of \<open>sales_data.csv\<close>.\<close>

definition ex_server :: server where
  "ex_server =
     \<lparr>salesData = [[(''date'', Str ''2023-12-31''), (''sales'', Num (Fin 1 0))]],
      currentDataFile = ''sales_data.csv'',
      model_dir = [(''sales_data.csv'', ex_file [[(''date'', ''2023-12-31''), (''sales'', ''1'')]])],
      venv_python = False, pending = []\<rparr>"

text \<open>An upload of \<open>B.csv\<close>, which holds one valid record.\<close>

definition ex_upload :: "(string \<times> file_entry) option" where
  "ex_upload = Some (''B.csv'', ex_file [[(''date'', ''2024-01-01''), (''sales'', ''5'')]])"

text \<open>The output of the inference routine when it reports a domain error.\<close>

definition ex_domain_error :: string where
  "ex_domain_error =
     ''{'' @ [CHR 0x22] @ ''error'' @ [CHR 0x22] @ '': '' @ [CHR 0x22] @ ''No input received''
       @ [CHR 0x22] @ ''}'' @ [CHR 0x0A]"

text \<open>The output of the specification's extraction example: a result between two lines of noise.\<close>

definition ex_noisy_output :: string where
  "ex_noisy_output =
     ''warning: foo'' @ [CHR 0x0A] @ ''{'' @ [CHR 0x22] @ ''prediction'' @ [CHR 0x22] @ '': 42.5}''
       @ [CHR 0x0A] @ ''trailing'' @ [CHR 0x0A]"

text \<open>A directory whose metadata document is not JSON.\<close>

definition ex_bad_meta_dir :: directory where
  "ex_bad_meta_dir =
     [(''model_metadata.json'', \<lparr>unlinkable = True, text_of = Some ''{oops'', records = []\<rparr>),
      (''sales_data.csv'', ex_file [[(''date'', ''2024-01-01''), (''sales'', ''5'')]])]"

text \<open>A directory with the artifacts of an earlier training, after \<open>B.csv\<close> was stored.\<close>

definition ex_stale_dir :: directory where
  "ex_stale_dir =
     [(''A.csv'', ex_file []),
      (''sales_model.pkl'', ex_file []),
      (''encoders.pkl'', ex_file []),
      (''model_metadata.json'', ex_file []),
      (''train.py'', ex_file []),
      (''B.csv'', ex_file [[(''date'', ''2024-01-01''), (''sales'', ''5'')]])]"

text \<open>A metadata document that declares \<open>revenue\<close>, and a record with both columns.\<close>

definition ex_revenue_meta :: string where
  "ex_revenue_meta =
     ''{'' @ [CHR 0x22] @ ''target_column'' @ [CHR 0x22] @ '': '' @ [CHR 0x22] @ ''revenue''
       @ [CHR 0x22] @ ''}''"

definition ex_revenue_row :: raw_row where
  "ex_revenue_row =
     [(''order_date'', ''2025-03-01''), (''revenue'', ''12.5''), (''sales'', ''7''),
      (''region'', ''North'')]"

section \<open>The bound of the JSON parser\<close>

text \<open>
  Every parsing function returns a rest that is no longer than its input, so the calls
  nested in one another can be counted against the length of the text: a bound larger
  than the one \<open>json_parse\<close> starts with gives the same result, and \<open>None\<close> never
  stands for a bound that was too small.
\<close>

lemma skip_ws_length: "length (skip_ws s) \<le> length s"
  by (simp add: skip_ws_def length_dropWhile_le)

lemma skip_ws_Cons_length: "skip_ws s = c # r \<Longrightarrow> Suc (length r) \<le> length s"
  using skip_ws_length [of s] by simp

lemma json_chars_unfold:
  assumes "json_chars (c # cs) = Some (x, r)"
  shows "r = cs \<or> (\<exists>s' x'. json_chars s' = Some (x', r) \<and> length s' \<le> length cs)"
proof -
  have rec: "\<exists>s' x'. json_chars s' = Some (x', r) \<and> length s' \<le> length cs"
    if "json_chars s' = Some (x', r)" "length s' \<le> length cs" for s' x'
    using that by blast
  from assms show ?thesis
    unfolding json_chars.simps
    by (auto split: if_splits option.splits list.splits intro!: rec)
qed

lemma json_chars_length: "json_chars s = Some (x, r) \<Longrightarrow> length r \<le> length s"
proof (induction s arbitrary: x r rule: length_induct)
  case (1 s)
  show ?case
  proof (cases s)
    case Nil
    with 1(2) show ?thesis by (simp add: json_chars.simps)
  next
    case (Cons c cs)
    from json_chars_unfold [OF 1(2) [unfolded Cons]]
    show ?thesis
    proof
      assume "r = cs"
      then show ?thesis by (simp add: Cons)
    next
      assume "\<exists>s' x'. json_chars s' = Some (x', r) \<and> length s' \<le> length cs"
      then obtain s' x' where s': "json_chars s' = Some (x', r)" "length s' \<le> length cs"
        by blast
      then have "length s' < length s" by (simp add: Cons)
      with 1(1) s'(1) have "length r \<le> length s'" by blast
      with s'(2) show ?thesis by (simp add: Cons)
    qed
  qed
qed

lemma take_sign_length: "take_sign s = (neg, r) \<Longrightarrow> length r \<le> length s"
  by (auto simp: take_sign_def split: list.splits if_splits)

lemma json_fraction_length: "json_fraction s = Some (fp, r) \<Longrightarrow> length r \<le> length s"
  by (auto simp: json_fraction_def Let_def le_SucI length_dropWhile_le
      split: list.splits if_splits)

lemma json_exponent_length:
  assumes "json_exponent s = Some (e, r)"
  shows "length r \<le> length s"
proof (cases s)
  case Nil
  with assms show ?thesis by (simp add: json_exponent_def)
next
  case (Cons c cs)
  obtain neg r' where ts: "take_sign cs = (neg, r')" by (cases "take_sign cs")
  have "length (dropWhile is_digit r') \<le> length cs"
    using take_sign_length [OF ts] length_dropWhile_le [of is_digit r'] by simp
  with assms show ?thesis
    by (auto simp: json_exponent_def Cons ts Let_def split: if_splits)
qed

lemma json_number_length:
  assumes "json_number s = Some (x, r)"
  shows "length r \<le> length s"
proof -
  obtain neg s1 where s1: "(case s of [] \<Rightarrow> (False, s)
      | c # r \<Rightarrow> if c = CHR ''-'' then (True, r) else (False, s)) = (neg, s1)"
    by (cases "(case s of [] \<Rightarrow> (False, s)
      | c # r \<Rightarrow> if c = CHR ''-'' then (True, r) else (False, s))")
  then have l1: "length s1 \<le> length s"
    by (auto split: list.splits if_splits)
  from assms obtain fp r2 ex where
    f: "json_fraction (dropWhile is_digit s1) = Some (fp, r2)" and e: "json_exponent r2 = Some (ex, r)"
    by (auto simp: json_number_def s1 Let_def split: if_splits option.splits)
  have "length r \<le> length r2" using e by (rule json_exponent_length)
  also have "\<dots> \<le> length (dropWhile is_digit s1)" using f by (rule json_fraction_length)
  also have "\<dots> \<le> length s1" by (rule length_dropWhile_le)
  finally show ?thesis using l1 by simp
qed

lemma json_rest_length:
  "(json_value n s = Some (v, r) \<longrightarrow> length r \<le> length s)
   \<and> (json_elements n acc s = Some (vs, r) \<longrightarrow> length r \<le> length s)
   \<and> (json_members n kacc s = Some (kvs, r) \<longrightarrow> length r \<le> length s)"
proof (induction n arbitrary: s v r acc vs kacc kvs)
  case 0
  show ?case by simp
next
  case (Suc n)
  note IHv = Suc.IH [THEN conjunct1, rule_format]
  note IHe = Suc.IH [THEN conjunct2, THEN conjunct1, rule_format]
  note IHm = Suc.IH [THEN conjunct2, THEN conjunct2, rule_format]
  have v: "length r \<le> length s" if "json_value (Suc n) s = Some (v, r)"
  proof (cases "skip_ws s")
    case Nil
    with that show ?thesis by simp
  next
    case (Cons c cs)
    note len = skip_ws_Cons_length [OF Cons]
    have e: "length r \<le> length s" if "json_elements n [] (CHR '','' # cs) = Some (vs', r)" for vs'
      using IHe [OF that] len by simp
    have m: "length r \<le> length s" if "json_members n [] (CHR '','' # cs) = Some (kvs', r)" for kvs'
      using IHm [OF that] len by simp
    have st: "length r \<le> length s" if "json_chars cs = Some (x, r)" for x
      using json_chars_length [OF that] len by simp
    have nu: "length r \<le> length s" if "json_number (c # cs) = Some (x, r)" for x
      using json_number_length [OF that] len by simp
    from that show ?thesis
      using len
      by (auto simp: Cons split: if_splits list.splits dest: e m st nu skip_ws_Cons_length)
  qed
  have e: "length r \<le> length s" if "json_elements (Suc n) acc s = Some (vs, r)"
  proof (cases "skip_ws s")
    case Nil
    with that show ?thesis by simp
  next
    case (Cons c cs)
    note len = skip_ws_Cons_length [OF Cons]
    show ?thesis
    proof (cases "c = CHR '','' ")
      case False
      with that len show ?thesis by (auto simp: Cons split: if_splits)
    next
      case True
      with that obtain v1 r1 where v1: "json_value n cs = Some (v1, r1)"
        and rest: "json_elements n (acc @ [v1]) r1 = Some (vs, r)"
        by (auto simp: Cons split: option.splits)
      from IHv [OF v1] IHe [OF rest] len show ?thesis by simp
    qed
  qed
  have m: "length r \<le> length s" if "json_members (Suc n) kacc s = Some (kvs, r)"
  proof (cases "skip_ws s")
    case Nil
    with that show ?thesis by simp
  next
    case (Cons c cs)
    note len = skip_ws_Cons_length [OF Cons]
    show ?thesis
    proof (cases "c = CHR '','' ")
      case False
      with that len show ?thesis by (auto simp: Cons split: if_splits)
    next
      case True
      with that obtain q r1 k r2 col r3 v1 r4 where
        a: "skip_ws cs = q # r1" and b: "json_chars r1 = Some (k, r2)"
        and c: "skip_ws r2 = col # r3" and d: "json_value n r3 = Some (v1, r4)"
        and rest: "json_members n (AList.update k v1 kacc) r4 = Some (kvs, r)"
        by (auto simp: Cons split: option.splits list.splits if_splits)
      from skip_ws_Cons_length [OF a] json_chars_length [OF b] skip_ws_Cons_length [OF c]
        IHv [OF d] IHm [OF rest] len
      show ?thesis by simp
    qed
  qed
  from v e m show ?case by blast
qed

lemma json_value_rest: "json_value n s = Some (v, r) \<Longrightarrow> length r \<le> length s"
  using json_rest_length by blast

lemma json_fuel_step:
  "(2 * length s + 1 \<le> n \<longrightarrow> json_value (Suc n) s = json_value n s)
   \<and> (2 * length s \<le> n \<longrightarrow> json_elements (Suc n) acc s = json_elements n acc s)
   \<and> (2 * length s \<le> n \<longrightarrow> json_members (Suc n) kacc s = json_members n kacc s)"
proof (induction n arbitrary: s acc kacc)
  case 0
  show ?case by (simp add: skip_ws_def)
next
  case (Suc n)
  note IHv = Suc.IH [THEN conjunct1, rule_format]
  note IHe = Suc.IH [THEN conjunct2, THEN conjunct1, rule_format]
  note IHm = Suc.IH [THEN conjunct2, THEN conjunct2, rule_format]
  have v: "json_value (Suc (Suc n)) s = json_value (Suc n) s" if b: "2 * length s + 1 \<le> Suc n"
  proof (cases "skip_ws s")
    case Nil
    then show ?thesis by simp
  next
    case (Cons c cs)
    note len = skip_ws_Cons_length [OF Cons]
    have "2 * length (CHR '','' # cs) \<le> n" using len b by simp
    then have eq: "json_elements (Suc n) [] (CHR '','' # cs) = json_elements n [] (CHR '','' # cs)"
      "json_members (Suc n) [] (CHR '','' # cs) = json_members n [] (CHR '','' # cs)"
      using IHe IHm by blast+
    show ?thesis
      unfolding json_value.simps(2) [of "Suc n" s] json_value.simps(2) [of n s] Cons
      by (simp only: eq list.case)
  qed
  have e: "json_elements (Suc (Suc n)) acc s = json_elements (Suc n) acc s"
    if b: "2 * length s \<le> Suc n"
  proof (cases "skip_ws s")
    case Nil
    then show ?thesis by simp
  next
    case (Cons c cs)
    note len = skip_ws_Cons_length [OF Cons]
    have "2 * length cs + 1 \<le> n" using len b by simp
    then have val: "json_value (Suc n) cs = json_value n cs" using IHv by blast
    have "json_elements (Suc n) (acc @ [v1]) r1 = json_elements n (acc @ [v1]) r1"
      if "json_value n cs = Some (v1, r1)" for v1 r1
    proof -
      from json_value_rest [OF that] len b have "2 * length r1 \<le> n" by simp
      then show ?thesis using IHe by blast
    qed
    then have "(case json_value n cs of None \<Rightarrow> None
            | Some (v1, r1) \<Rightarrow> json_elements (Suc n) (acc @ [v1]) r1)
        = (case json_value n cs of None \<Rightarrow> None
            | Some (v1, r1) \<Rightarrow> json_elements n (acc @ [v1]) r1)"
      by (simp split: option.splits del: json_elements.simps)
    then show ?thesis
      unfolding json_elements.simps(2) [of "Suc n" acc s] json_elements.simps(2) [of n acc s] Cons
      by (simp only: list.case val)
  qed
  have m: "json_members (Suc (Suc n)) kacc s = json_members (Suc n) kacc s"
    if b: "2 * length s \<le> Suc n"
  proof (cases "skip_ws s")
    case Nil
    then show ?thesis by simp
  next
    case (Cons c cs)
    note len = skip_ws_Cons_length [OF Cons]
    have inner: "(case json_value (Suc n) r3 of None \<Rightarrow> None
            | Some (v1, r4) \<Rightarrow> json_members (Suc n) (AList.update k v1 kacc) r4)
        = (case json_value n r3 of None \<Rightarrow> None
            | Some (v1, r4) \<Rightarrow> json_members n (AList.update k v1 kacc) r4)"
      if a: "skip_ws cs = q # r1" and s: "json_chars r1 = Some (k, r2)"
        and c: "skip_ws r2 = col # r3" for q r1 k r2 col r3
    proof -
      from skip_ws_Cons_length [OF a] json_chars_length [OF s] skip_ws_Cons_length [OF c] len b
      have l3: "2 * length r3 + 1 \<le> n" by simp
      then have val: "json_value (Suc n) r3 = json_value n r3" using IHv by blast
      have "json_members (Suc n) (AList.update k v1 kacc) r4
          = json_members n (AList.update k v1 kacc) r4"
        if "json_value n r3 = Some (v1, r4)" for v1 r4
      proof -
        from json_value_rest [OF that] l3 have "2 * length r4 \<le> n" by simp
        then show ?thesis using IHm by blast
      qed
      then show ?thesis
        unfolding val by (simp split: option.splits del: json_members.simps)
    qed
    have "(case skip_ws cs of [] \<Rightarrow> None
           | q # r1 \<Rightarrow>
               if q = CHR 0x22 then
                 (case json_chars r1 of
                    None \<Rightarrow> None
                  | Some (k, r2) \<Rightarrow>
                      (case skip_ws r2 of
                         [] \<Rightarrow> None
                       | colon # r3 \<Rightarrow>
                           if colon = CHR '':'' then
                             (case json_value (Suc n) r3 of
                                None \<Rightarrow> None
                              | Some (v, r4) \<Rightarrow> json_members (Suc n) (AList.update k v kacc) r4)
                           else None))
               else None)
        = (case skip_ws cs of [] \<Rightarrow> None
           | q # r1 \<Rightarrow>
               if q = CHR 0x22 then
                 (case json_chars r1 of
                    None \<Rightarrow> None
                  | Some (k, r2) \<Rightarrow>
                      (case skip_ws r2 of
                         [] \<Rightarrow> None
                       | colon # r3 \<Rightarrow>
                           if colon = CHR '':'' then
                             (case json_value n r3 of
                                None \<Rightarrow> None
                              | Some (v, r4) \<Rightarrow> json_members n (AList.update k v kacc) r4)
                           else None))
               else None)"
      using inner
      by (auto split: list.splits option.splits simp del: json_members.simps json_value.simps)
    then show ?thesis
      unfolding json_members.simps(2) [of "Suc n" kacc s] json_members.simps(2) [of n kacc s] Cons
      by (simp only: list.case)
  qed
  from v e m show ?case by blast
qed

text \<open>The bound \<open>json_parse\<close> starts with is enough: a larger one gives the same result.\<close>

lemma json_value_fuel:
  "2 * length s + 1 \<le> n \<Longrightarrow> json_value n s = json_value (2 * length s + 1) s"
proof (induction n)
  case 0
  then show ?case by simp
next
  case (Suc n)
  show ?case
  proof (cases "2 * length s + 1 \<le> n")
    case True
    then have "json_value (Suc n) s = json_value n s"
      using json_fuel_step by blast
    with Suc.IH True show ?thesis by simp
  next
    case False
    with Suc.prems have "Suc n = 2 * length s + 1" by simp
    then show ?thesis by simp
  qed
qed

lemma json_parse_any_bound:
  "2 * length s + 1 \<le> n \<Longrightarrow>
     json_parse s =
       (case json_value n s of
          None \<Rightarrow> None
        | Some (v, rest) \<Rightarrow> if skip_ws rest = [] then Some v else None)"
  by (simp add: json_parse_def json_value_fuel)

section \<open>The artifact directory: cleanup before training\<close>

lemma unlinkSync_ok:
  "map_of d name = Some f \<Longrightarrow> unlinkable f \<Longrightarrow>
     unlinkSync name d = Inr (filter (\<lambda>e. fst e \<noteq> name) d)"
  by (simp add: unlinkSync_def)

lemma map_of_filter_other:
  "g \<noteq> name \<Longrightarrow> map_of (filter (\<lambda>e. fst e \<noteq> name) d) g = map_of d g"
  by (induction d) auto

lemma map_of_filter_keep:
  "(\<And>x. fst x = g \<Longrightarrow> P x) \<Longrightarrow> map_of (filter P d) g = map_of d g"
  by (induction d) auto

lemma cleanup_loop_all_ok:
  "distinct fs \<Longrightarrow>
   (\<forall>g\<in>set fs. should_delete B g \<longrightarrow> (\<exists>e. map_of d g = Some e \<and> unlinkable e)) \<Longrightarrow>
   cleanup_loop B fs d =
     (filter (\<lambda>x. \<not> (fst x \<in> set fs \<and> should_delete B (fst x))) d, None)"
proof (induction fs arbitrary: d)
  case Nil
  then show ?case by simp
next
  case (Cons f fs)
  show ?case
  proof (cases "should_delete B f")
    case False
    have "cleanup_loop B (f # fs) d = cleanup_loop B fs d"
      using False by simp
    also have "\<dots> = (filter (\<lambda>x. \<not> (fst x \<in> set fs \<and> should_delete B (fst x))) d, None)"
      using Cons.prems by (intro Cons.IH) auto
    also have "filter (\<lambda>x. \<not> (fst x \<in> set fs \<and> should_delete B (fst x))) d =
               filter (\<lambda>x. \<not> (fst x \<in> set (f # fs) \<and> should_delete B (fst x))) d"
      using False by (intro filter_cong) auto
    finally show ?thesis .
  next
    case True
    then obtain e where e: "map_of d f = Some e" "unlinkable e"
      using Cons.prems by auto
    let ?d' = "filter (\<lambda>x. fst x \<noteq> f) d"
    have notin: "f \<notin> set fs" using Cons.prems by simp
    have "cleanup_loop B (f # fs) d = cleanup_loop B fs ?d'"
      using True e by (simp add: unlinkSync_ok)
    also have "\<dots> = (filter (\<lambda>x. \<not> (fst x \<in> set fs \<and> should_delete B (fst x))) ?d', None)"
    proof (intro Cons.IH)
      show "distinct fs" using Cons.prems by simp
      show "\<forall>g\<in>set fs. should_delete B g \<longrightarrow> (\<exists>e. map_of ?d' g = Some e \<and> unlinkable e)"
      proof (intro ballI impI)
        fix g assume g: "g \<in> set fs" "should_delete B g"
        then have "g \<noteq> f" using notin by auto
        then have "map_of ?d' g = map_of d g" by (rule map_of_filter_other)
        then show "\<exists>e. map_of ?d' g = Some e \<and> unlinkable e"
          using Cons.prems(2) g by simp
      qed
    qed
    also have "filter (\<lambda>x. \<not> (fst x \<in> set fs \<and> should_delete B (fst x))) ?d' =
               filter (\<lambda>x. \<not> (fst x \<in> set (f # fs) \<and> should_delete B (fst x))) d"
      using True by (auto intro: filter_cong)
    finally show ?thesis .
  qed
qed

lemma cleanup_loop_append:
  "cleanup_loop B (pre @ rest) d =
     (case cleanup_loop B pre d of
        (d', None) \<Rightarrow> cleanup_loop B rest d'
      | (d', Some e) \<Rightarrow> (d', Some e))"
  by (induction pre arbitrary: d) (auto split: sum.splits)

lemma cleanup_loop_abort:
  assumes "distinct (pre @ f # post)"
    and "\<forall>g\<in>set pre. should_delete B g \<longrightarrow> (\<exists>e. map_of d g = Some e \<and> unlinkable e)"
    and "should_delete B f" and "map_of d f = Some e" and "\<not> unlinkable e"
  shows "cleanup_loop B (pre @ f # post) d =
     (filter (\<lambda>x. \<not> (fst x \<in> set pre \<and> should_delete B (fst x))) d, Some EPERM)"
proof -
  let ?d' = "filter (\<lambda>x. \<not> (fst x \<in> set pre \<and> should_delete B (fst x))) d"
  have pre: "cleanup_loop B pre d = (?d', None)"
    using assms(1,2) by (intro cleanup_loop_all_ok) auto
  have "f \<notin> set pre" using assms(1) by auto
  then have "map_of ?d' f = map_of d f"
    by (induction d) auto
  then have "unlinkSync f ?d' = Inl EPERM"
    using assms(4,5) by (simp add: unlinkSync_def)
  then have "cleanup_loop B (f # post) ?d' = (?d', Some EPERM)"
    using assms(3) by simp
  then show ?thesis
    by (simp add: cleanup_loop_append pre)
qed

lemma cleanup_all_ok:
  assumes "distinct (map fst d)"
    and "\<forall>g\<in>set (map fst d). should_delete B g \<longrightarrow> (\<exists>e. map_of d g = Some e \<and> unlinkable e)"
  shows "cleanup B d = filter (\<lambda>x. \<not> should_delete B (fst x)) d"
proof -
  have "cleanup_loop B (map fst d) d =
          (filter (\<lambda>x. \<not> (fst x \<in> set (map fst d) \<and> should_delete B (fst x))) d, None)"
    using assms by (rule cleanup_loop_all_ok)
  moreover have "filter (\<lambda>x. \<not> (fst x \<in> set (map fst d) \<and> should_delete B (fst x))) d
      = filter (\<lambda>x. \<not> should_delete B (fst x)) d"
    by (intro filter_cong) auto
  ultimately show ?thesis by (simp add: cleanup_def)
qed

lemma csv_name_survives:
  assumes "endsWith B ''.csv''"
  shows "\<not> should_delete B B"
proof -
  have "\<not> endsWith B ''.pkl''"
    using assms by (auto simp: endsWith_def)
  moreover have "B \<noteq> ''model_metadata.json''"
    using assms by (auto simp: endsWith_def)
  ultimately show ?thesis by (simp add: should_delete_def)
qed

text \<open>multer leaves the uploaded file in the directory under its name, other names untouched.\<close>

lemma multer_store_stores:
  "map_of (model_dir (multer_store (Some (B, f)) s)) B = Some f
   \<and> (g \<noteq> B \<longrightarrow> map_of (model_dir (multer_store (Some (B, f)) s)) g = map_of (model_dir s) g)
   \<and> (distinct (map fst (model_dir s)) \<longrightarrow>
        distinct (map fst (model_dir (multer_store (Some (B, f)) s))))"
  by (simp add: multer_store_def update_conv' distinct_update)

lemma training_handlers_keep_directory:
  "model_dir (fst (training_error message s)) = model_dir s
   \<and> model_dir (fst (training_close code output s)) = model_dir s"
  by (simp add: training_error_def training_close_def loadData_def Let_def)

text \<open>
  C3. An upload of \<open>B.csv\<close> into a directory whose entries can all be removed: when the
  training process is spawned the directory is the old one without the entries the
  condition of lines 103-107 selects. \<open>B.csv\<close> is in it with the uploaded content, no
  entry ends in \<open>.pkl\<close>, there is no \<open>model_metadata.json\<close>, and the only entry ending
  in \<open>.csv\<close> is \<open>B.csv\<close>. Neither listener of the training process touches the
  directory afterwards, whatever the outcome.
\<close>

theorem cleanup_invariant:
  assumes "endsWith B ''.csv''"
    and "map_of (model_dir s) B = Some f"
    and "distinct (map fst (model_dir s))"
    and "\<forall>g\<in>set (map fst (model_dir s)). should_delete B g \<longrightarrow>
           (\<exists>e. map_of (model_dir s) g = Some e \<and> unlinkable e)"
  shows "model_dir (fst (upload_handler (Some B) s))
           = filter (\<lambda>x. \<not> should_delete B (fst x)) (model_dir s)
       \<and> map_of (model_dir (fst (upload_handler (Some B) s))) B = Some f
       \<and> (\<forall>g. existsSync (model_dir (fst (upload_handler (Some B) s))) g \<longrightarrow>
              \<not> endsWith g ''.pkl'' \<and> g \<noteq> ''model_metadata.json''
              \<and> (endsWith g ''.csv'' \<longrightarrow> g = B))
       \<and> model_dir (fst (training_error message s')) = model_dir s'
       \<and> model_dir (fst (training_close code output s')) = model_dir s'"
proof -
  let ?d = "model_dir s"
  let ?d' = "filter (\<lambda>x. \<not> should_delete B (fst x)) ?d"
  have cl: "cleanup B ?d = ?d'"
    using assms(3,4) by (rule cleanup_all_ok)
  have dir: "model_dir (fst (upload_handler (Some B) s)) = ?d'"
    by (simp add: upload_handler_def Let_def cl)
  have keepB: "map_of ?d' B = Some f"
    using csv_name_survives [OF assms(1)] assms(2) by (simp add: map_of_filter_keep)
  have gone: "\<not> endsWith g ''.pkl'' \<and> g \<noteq> ''model_metadata.json''
              \<and> (endsWith g ''.csv'' \<longrightarrow> g = B)" if "existsSync ?d' g" for g
  proof -
    from that have "g \<in> fst ` set ?d'"
      by (simp add: existsSync_def map_of_eq_None_iff)
    then have "\<not> should_delete B g" by auto
    then show ?thesis by (auto simp: should_delete_def)
  qed
  show ?thesis
    using dir keepB gone training_handlers_keep_directory by simp
qed

text \<open>
  The theorem at a directory that holds \<open>A.csv\<close>, two \<open>.pkl\<close> artifacts, the metadata
  document, the training script and the uploaded \<open>B.csv\<close>.
\<close>

theorem cleanup_invariant_witness:
  "map fst (model_dir (fst (upload_handler (Some ''B.csv'') (ex_server\<lparr>model_dir := ex_stale_dir\<rparr>))))
     = [''train.py'', ''B.csv'']"
proof -
  let ?s = "ex_server\<lparr>model_dir := ex_stale_dir\<rparr>"
  have a: "endsWith ''B.csv'' ''.csv''" by (simp add: endsWith_def)
  have b: "map_of (model_dir ?s) ''B.csv'' = Some (ex_file [[(''date'', ''2024-01-01''), (''sales'', ''5'')]])"
    by (simp add: ex_stale_dir_def)
  have c: "distinct (map fst (model_dir ?s))"
    by (simp add: ex_stale_dir_def)
  have d: "\<forall>g\<in>set (map fst (model_dir ?s)). should_delete ''B.csv'' g \<longrightarrow>
           (\<exists>e. map_of (model_dir ?s) g = Some e \<and> unlinkable e)"
    by (simp add: ex_stale_dir_def ex_file_def)
  from cleanup_invariant [OF a b c d]
  have dir: "model_dir (fst (upload_handler (Some ''B.csv'') ?s))
      = filter (\<lambda>x. \<not> should_delete ''B.csv'' (fst x)) ex_stale_dir"
    by simp
  have "filter (\<lambda>x. \<not> should_delete ''B.csv'' (fst x)) ex_stale_dir
      = [(''train.py'', ex_file []), (''B.csv'', ex_file [[(''date'', ''2024-01-01''), (''sales'', ''5'')]])]"
    by (simp add: ex_stale_dir_def should_delete_def endsWith_def)
  with dir show ?thesis by simp
qed

text \<open>
  C10. The whole deletion loop sits in one \<open>try\<close>: when the deletion of \<open>f\<close> throws
  (the entries listed before it having been handled without error), the loop is left with
  the error, every entry listed from \<open>f\<close> on is still in the directory whether or not
  it was due for deletion, and the handler goes on to overwrite \<open>currentDataFile\<close> and
  spawn the training process.
\<close>

theorem cleanup_aborts_at_first_failure:
  assumes "map fst (model_dir s) = pre @ f # post"
    and "distinct (map fst (model_dir s))"
    and "\<forall>g\<in>set pre. should_delete B g \<longrightarrow>
           (\<exists>e. map_of (model_dir s) g = Some e \<and> unlinkable e)"
    and "should_delete B f"
    and "map_of (model_dir s) f = Some e" and "\<not> unlinkable e"
  shows "cleanup_loop B (map fst (model_dir s)) (model_dir s) =
           (filter (\<lambda>x. \<not> (fst x \<in> set pre \<and> should_delete B (fst x))) (model_dir s),
            Some EPERM)
       \<and> (\<forall>g\<in>set (f # post). map_of (cleanup B (model_dir s)) g = map_of (model_dir s) g
             \<and> existsSync (cleanup B (model_dir s)) g)
       \<and> upload_handler (Some B) s =
           (s\<lparr>model_dir :=
                 filter (\<lambda>x. \<not> (fst x \<in> set pre \<and> should_delete B (fst x))) (model_dir s),
               currentDataFile := B\<rparr>,
            Inr \<lparr>cmd = (if venv_python s then ''model/venv/Scripts/python.exe'' else ''python''),
                 args = [''model/train.py'', B], cwd = ''model''\<rparr>)"
proof -
  let ?d = "model_dir s"
  let ?d' = "filter (\<lambda>x. \<not> (fst x \<in> set pre \<and> should_delete B (fst x))) ?d"
  have dist: "distinct (pre @ f # post)" using assms(1,2) by simp
  have loop: "cleanup_loop B (map fst ?d) ?d = (?d', Some EPERM)"
    unfolding assms(1) using dist assms(3-6) by (rule cleanup_loop_abort)
  then have cl: "cleanup B ?d = ?d'" by (simp add: cleanup_def)
  have rest: "\<forall>g\<in>set (f # post). map_of (cleanup B ?d) g = map_of ?d g
                 \<and> existsSync (cleanup B ?d) g"
  proof
    fix g assume g: "g \<in> set (f # post)"
    then have "g \<notin> set pre" using dist by auto
    then have same: "map_of ?d' g = map_of ?d g"
      by (intro map_of_filter_keep) simp
    have "g \<in> fst ` set ?d" using g assms(1)
      by (metis Un_iff list.set_map set_append)
    then have "map_of ?d g \<noteq> None" by (simp add: map_of_eq_None_iff)
    then show "map_of (cleanup B ?d) g = map_of ?d g \<and> existsSync (cleanup B ?d) g"
      using same by (simp add: cl existsSync_def)
  qed
  have "upload_handler (Some B) s =
           (s\<lparr>model_dir := ?d', currentDataFile := B\<rparr>,
            Inr \<lparr>cmd = (if venv_python s then ''model/venv/Scripts/python.exe'' else ''python''),
                 args = [''model/train.py'', B], cwd = ''model''\<rparr>)"
    by (simp add: upload_handler_def cl Let_def)
  with loop rest show ?thesis by blast
qed

text \<open>
  The theorem at a directory in which the metadata document is removed and \<open>A.csv\<close>,
  listed next, cannot be: the \<open>.pkl\<close> artifact listed after it stays.
\<close>

theorem cleanup_aborts_at_first_failure_witness:
  "cleanup_loop ''B.csv'' (map fst ex_locked_dir) ex_locked_dir = (tl ex_locked_dir, Some EPERM)
   \<and> existsSync (cleanup ''B.csv'' ex_locked_dir) ''sales_model.pkl''
   \<and> fst (upload_handler (Some ''B.csv'')
        \<lparr>salesData = [], currentDataFile = ''sales_data.csv'', model_dir = ex_locked_dir,
         venv_python = False, pending = []\<rparr>) =
      \<lparr>salesData = [], currentDataFile = ''B.csv'', model_dir = tl ex_locked_dir,
         venv_python = False, pending = []\<rparr>"
  using cleanup_aborts_at_first_failure
    [of "\<lparr>salesData = [], currentDataFile = ''sales_data.csv'', model_dir = ex_locked_dir,
         venv_python = False, pending = []\<rparr>"
        "[''model_metadata.json'']" "''A.csv''" "[''sales_model.pkl'', ''B.csv'']" "''B.csv''"
        "\<lparr>unlinkable = False, text_of = Some [], records = []\<rparr>"]
  by (simp add: ex_locked_dir_def should_delete_def endsWith_def)

section \<open>The upload request: cache and dataset reference\<close>

lemma foldl_on_stdout: "foldl on_stdout acc chunks = acc @ concat chunks"
  by (induction chunks arbitrary: acc) (simp_all add: on_stdout_def)

text \<open>
  C2. When the training process closes with any exit code other than 0 (or with none,
  after a signal), the \<open>'close'\<close> listener answers 500 with the captured standard output
  as \<open>details\<close> and returns the server state as it found it. Over the whole request the
  cache \<open>salesData\<close> is the one the request started with, and no reload is scheduled.
\<close>

theorem failed_training_keeps_cache:
  assumes "code \<noteq> Some 0"
  shows "training_close code output s =
           (s, \<lparr>status = 500,
                body = JObject [(''error'', JString ''Model training failed''),
                                (''details'', JString output)]\<rparr>)
       \<and> salesData (fst (upload (Some (B, f)) (Runs writes chunks code) s)) = salesData s
       \<and> pending (fst (upload (Some (B, f)) (Runs writes chunks code) s)) = pending s
       \<and> snd (upload (Some (B, f)) (Runs writes chunks code) s) =
           \<lparr>status = 500,
            body = JObject [(''error'', JString ''Model training failed''),
                            (''details'', JString (concat chunks))]\<rparr>"
  using assms
  by (simp add: training_close_def upload_def upload_handler_def multer_store_def Let_def
      foldl_on_stdout)

text \<open>
  The theorem at an upload of \<open>B.csv\<close> whose training exits with code 1.
\<close>

theorem failed_training_keeps_cache_witness:
  "salesData (fst (upload ex_upload (Runs id [''Traceback'', '' (most recent call last)''] (Some 1)) ex_server))
     = salesData ex_server
   \<and> status (snd (upload ex_upload (Runs id [''Traceback'', '' (most recent call last)''] (Some 1)) ex_server)) = 500"
proof -
  have "Some (1::int) \<noteq> Some 0" by simp
  from failed_training_keeps_cache [OF this, where B = "''B.csv''"
      and f = "ex_file [[(''date'', ''2024-01-01''), (''sales'', ''5'')]]" and writes = id
      and chunks = "[''Traceback'', '' (most recent call last)'']" and s = ex_server]
  show ?thesis by (simp add: ex_upload_def)
qed

text \<open>
  C8, as the code has it. Line 120 overwrites \<open>currentDataFile\<close> with the uploaded
  file's name before the training process is spawned, so every request that carries a file
  sets it, whatever the training process then does; a request without a file is answered
  400 and changes nothing.
\<close>

theorem upload_overwrites_reference:
  "currentDataFile (fst (upload (Some (B, f)) job s)) = B
   \<and> upload None job s =
       (s, \<lparr>status = 400, body = JObject [(''error'', JString ''No file uploaded'')]\<rparr>)"
  by (simp add: upload_def upload_handler_def multer_store_def training_error_def
      training_close_def loadData_def Let_def split: job.splits)

text \<open>
  C8 as stated fails: after an upload of \<open>B.csv\<close> whose training exits with code 1 (the
  request is answered 500), \<open>currentDataFile\<close> is \<open>B.csv\<close>, not the
  \<open>sales_data.csv\<close> it was before the request.
\<close>

theorem failed_upload_changes_reference:
  "currentDataFile (fst (upload ex_upload (Runs id [] (Some 1)) ex_server)) = ''B.csv''
   \<and> currentDataFile ex_server = ''sales_data.csv''
   \<and> status (snd (upload ex_upload (Runs id [] (Some 1)) ex_server)) = 500"
  by (simp add: upload_def upload_handler_def multer_store_def training_close_def Let_def
      ex_upload_def ex_server_def)

text \<open>
  The same when the training process cannot be started.
\<close>

theorem failed_launch_changes_reference_too:
  "currentDataFile (fst (upload ex_upload (LaunchFails ''spawn python ENOENT'') ex_server)) = ''B.csv''"
  by (simp add: upload_def upload_handler_def multer_store_def training_error_def Let_def
      ex_upload_def ex_server_def)

text \<open>
  After a zero exit the \<open>'close'\<close> listener always answers with an empty cache: the
  reload it started has only been queued.
\<close>

lemma success_leaves_cache_empty:
  "salesData (fst (training_close (Some 0) output s)) = []
   \<and> status (snd (training_close (Some 0) output s)) = 200
   \<and> (existsSync (model_dir s) (currentDataFile s) \<longrightarrow>
        pending (fst (training_close (Some 0) output s))
          = pending s @ [ReadStream (currentDataFile s) (resolve_target (model_dir s))])"
  by (simp add: training_close_def loadData_def Let_def)

text \<open>
  C1 on the code. An upload of \<open>B.csv\<close>, which holds one valid record, with a training
  process that exits 0: when the 200 response is produced the cache is empty and the read
  stream is still pending; the record is in the cache only after the event loop has
  delivered the stream.
\<close>

theorem success_response_precedes_rows:
  "upload ex_upload (Runs id [''done''] (Some 0)) ex_server =
     (\<lparr>salesData = [], currentDataFile = ''B.csv'',
       model_dir = [(''B.csv'', ex_file [[(''date'', ''2024-01-01''), (''sales'', ''5'')]])],
       venv_python = False, pending = [ReadStream ''B.csv'' ''sales'']\<rparr>,
      \<lparr>status = 200,
       body = JObject [(''message'', JString ''Data updated and model retrained successfully''),
                       (''output'', JString ''done'')]\<rparr>)
   \<and> get_sales (fst (upload ex_upload (Runs id [''done''] (Some 0)) ex_server)) = []
   \<and> map_option get_sales (step (fst (upload ex_upload (Runs id [''done''] (Some 0)) ex_server))) =
       Some [[(''date'', Str ''2024-01-01''), (''sales'', Num (Fin 5 0))]]"
  by code_simp

section \<open>The predict handler: extraction and response\<close>

lemma indexOf_ge: "- 1 \<le> indexOf s c"
  by (induction s) (auto simp: Let_def)

lemma indexOf_absent: "c \<notin> set s \<Longrightarrow> indexOf s c = - 1"
  by (induction s) (auto simp: Let_def)

lemma indexOf_first: "c \<notin> set pre \<Longrightarrow> indexOf (pre @ c # rest) c = int (length pre)"
  by (induction pre) (auto simp: Let_def)

lemma lastIndexOf_last:
  assumes "c \<notin> set post"
  shows "lastIndexOf (pre @ c # post) c = int (length pre)"
proof -
  have "indexOf (rev post @ c # rev pre) c = int (length (rev post))"
    using assms by (intro indexOf_first) simp
  then show ?thesis by (simp add: lastIndexOf_def Let_def)
qed

lemma lastIndexOf_absent: "c \<notin> set s \<Longrightarrow> lastIndexOf s c = - 1"
  by (simp add: lastIndexOf_def indexOf_absent)

lemma substring_middle:
  "substring (pre @ mid @ post) (int (length pre)) (int (length pre) + int (length mid)) = mid"
proof -
  let ?s = "pre @ mid @ post"
  let ?a = "int (length pre)"
  let ?b = "int (length pre) + int (length mid)"
  have a: "min (max ?a 0) (int (length ?s)) = ?a" by simp
  have b: "min (max ?b 0) (int (length ?s)) = ?b" by simp
  have lo: "min ?a ?b = ?a" and hi: "max ?a ?b = ?b" by simp_all
  have "substring ?s ?a ?b = take (nat (?b - ?a)) (drop (nat ?a) ?s)"
    unfolding substring_def Let_def a b lo hi ..
  then show ?thesis by simp
qed

text \<open>The extraction on an output that holds one brace-delimited part amid brace-free noise.\<close>

lemma predict_extracts_between_braces:
  assumes "CHR ''{'' \<notin> set pre" and "CHR ''}'' \<notin> set post"
  shows "predict_close code (pre @ CHR ''{'' # inner @ CHR ''}'' # post) =
           (case json_parse (CHR ''{'' # inner @ [CHR ''}'']) of
              None \<Rightarrow> predict_failed (pre @ CHR ''{'' # inner @ CHR ''}'' # post)
            | Some result \<Rightarrow> \<lparr>status = 200, body = result\<rparr>)"
proof -
  let ?out = "pre @ CHR ''{'' # inner @ CHR ''}'' # post"
  have s: "indexOf ?out CHR ''{'' = int (length pre)"
    using assms(1) by (rule indexOf_first)
  have "lastIndexOf ((pre @ CHR ''{'' # inner) @ CHR ''}'' # post) CHR ''}''
          = int (length (pre @ CHR ''{'' # inner))"
    using assms(2) by (rule lastIndexOf_last)
  then have e: "lastIndexOf ?out CHR ''}'' = int (length pre) + int (length inner) + 1"
    by simp
  have sub: "substring ?out (int (length pre)) (int (length pre) + int (length inner) + 1 + 1)
        = CHR ''{'' # inner @ [CHR ''}'']"
    using substring_middle [of pre "CHR ''{'' # inner @ [CHR ''}'']" post]
    by (simp add: algebra_simps)
  show ?thesis
    unfolding predict_close_def Let_def s e sub by simp
qed

lemma predict_no_braces:
  "CHR ''{'' \<notin> set out \<or> CHR ''}'' \<notin> set out \<Longrightarrow> predict_close code out = predict_failed out"
  by (auto simp: predict_close_def Let_def indexOf_absent lastIndexOf_absent)

text \<open>The example of the specification: the noise around the result is dropped.\<close>

lemma predict_noisy_example:
  "predict_close code ex_noisy_output =
     \<lparr>status = 200, body = JObject [(''prediction'', JNumber (Fin 425 (- 1)))]\<rparr>"
proof -
  have "predict_close (Some 0) ex_noisy_output =
     \<lparr>status = 200, body = JObject [(''prediction'', JNumber (Fin 425 (- 1)))]\<rparr>"
    by code_simp
  then show ?thesis by (simp add: predict_close_def)
qed

text \<open>
  C7. The response of the predict handler is a function of the captured output alone:
  the exit code does not enter it. Whenever the extracted part parses, the answer is 200
  with the parsed value as its body; in particular for an output that holds one JSON
  object between noise with no \<open>{\<close> before it and no \<open>}\<close> after it, and this whether the
  object reports a prediction or an error.
\<close>

theorem predict_decided_by_output:
  "(\<forall>code'. predict_close code' out = predict_close code out)
   \<and> (indexOf out CHR ''{'' \<noteq> - 1 \<and> lastIndexOf out CHR ''}'' \<noteq> - 1
        \<and> json_parse (substring out (indexOf out CHR ''{'') (lastIndexOf out CHR ''}'' + 1))
            = Some result
       \<longrightarrow> predict_close code out = \<lparr>status = 200, body = result\<rparr>)
   \<and> (CHR ''{'' \<notin> set pre \<and> CHR ''}'' \<notin> set post
        \<and> json_parse (CHR ''{'' # inner @ [CHR ''}'']) = Some result
       \<longrightarrow> predict_close code (pre @ CHR ''{'' # inner @ CHR ''}'' # post)
            = \<lparr>status = 200, body = result\<rparr>)"
proof (intro conjI allI impI)
  fix code'
  show "predict_close code' out = predict_close code out"
    by (simp add: predict_close_def)
next
  assume "indexOf out CHR ''{'' \<noteq> - 1 \<and> lastIndexOf out CHR ''}'' \<noteq> - 1
        \<and> json_parse (substring out (indexOf out CHR ''{'') (lastIndexOf out CHR ''}'' + 1))
            = Some result"
  then show "predict_close code out = \<lparr>status = 200, body = result\<rparr>"
    by (simp add: predict_close_def Let_def)
next
  assume "CHR ''{'' \<notin> set pre \<and> CHR ''}'' \<notin> set post
        \<and> json_parse (CHR ''{'' # inner @ [CHR ''}'']) = Some result"
  then show "predict_close code (pre @ CHR ''{'' # inner @ CHR ''}'' # post)
            = \<lparr>status = 200, body = result\<rparr>"
    by (simp add: predict_extracts_between_braces)
qed

lemma ex_domain_error_parse:
  "json_parse (CHR ''{'' # ([CHR 0x22] @ ''error'' @ [CHR 0x22] @ '': '' @ [CHR 0x22]
      @ ''No input received'' @ [CHR 0x22]) @ [CHR ''}''])
   = Some (JObject [(''error'', JString ''No input received'')])"
  by code_simp

text \<open>
  The theorem at the inference routine's own domain error, with exit code 1.
\<close>

theorem predict_decided_by_output_witness:
  "predict_close (Some 1) ex_domain_error =
     \<lparr>status = 200, body = JObject [(''error'', JString ''No input received'')]\<rparr>
   \<and> predict_close None ex_domain_error = predict_close (Some 1) ex_domain_error"
proof -
  have split: "ex_domain_error = [] @ CHR ''{'' # ([CHR 0x22] @ ''error'' @ [CHR 0x22] @ '': ''
      @ [CHR 0x22] @ ''No input received'' @ [CHR 0x22]) @ CHR ''}'' # [CHR 0x0A]"
    by (simp add: ex_domain_error_def)
  have noise: "CHR ''{'' \<notin> set ([]::string) \<and> CHR ''}'' \<notin> set [CHR 0x0A]" by simp
  note inst = predict_decided_by_output [where code = "Some 1" and out = ex_domain_error
      and pre = "[]" and post = "[CHR 0x0A]"
      and inner = "[CHR 0x22] @ ''error'' @ [CHR 0x22] @ '': '' @ [CHR 0x22]
         @ ''No input received'' @ [CHR 0x22]"
      and result = "JObject [(''error'', JString ''No input received'')]"]
  from inst noise ex_domain_error_parse have
    "predict_close (Some 1) ([] @ CHR ''{'' # ([CHR 0x22] @ ''error'' @ [CHR 0x22] @ '': ''
      @ [CHR 0x22] @ ''No input received'' @ [CHR 0x22]) @ CHR ''}'' # [CHR 0x0A])
     = \<lparr>status = 200, body = JObject [(''error'', JString ''No input received'')]\<rparr>"
    by blast
  moreover from inst have "predict_close None ex_domain_error = predict_close (Some 1) ex_domain_error"
    by blast
  ultimately show ?thesis unfolding split by simp
qed

text \<open>
  C6 on the code, where the last \<open>}\<close> comes before the first \<open>{\<close>: \<open>substring\<close> swaps
  its arguments, so the text between the two braces is parsed and the request is answered
  200, although the output holds no brace-delimited part.
\<close>

theorem swapped_braces_parse_the_noise:
  "predict_close (Some 0) ''} 42 {'' = \<lparr>status = 200, body = JNumber (Fin 42 0)\<rparr>"
  by code_simp

section \<open>The cache loader: target column and row filter\<close>

text \<open>
  C9. When the metadata document exists but cannot be read, or its text is not JSON (or
  is \<open>null\<close>, whose property cannot be read), the exception is caught: the target
  column stays \<open>sales\<close> and \<open>loadData\<close> goes on to create the read stream for the
  current data file, as it does without a metadata document.
\<close>

theorem malformed_metadata_falls_back:
  assumes "map_of (model_dir s) ''model_metadata.json'' = Some f"
    and "text_of f = None
         \<or> (\<exists>txt. text_of f = Some txt
                  \<and> (json_parse txt = None \<or> json_parse txt = Some JNull))"
  shows "resolve_target (model_dir s) = ''sales''
       \<and> loadData s =
           (if existsSync (model_dir s) (currentDataFile s)
            then s\<lparr>pending := pending s @ [ReadStream (currentDataFile s) ''sales'']\<rparr>
            else s)"
proof -
  have "resolve_target (model_dir s) = ''sales''"
    using assms by (auto simp: resolve_target_def)
  then show ?thesis by (simp add: loadData_def)
qed

lemma ex_bad_meta_parse: "json_parse ''{oops'' = None"
  by code_simp

text \<open>
  The theorem at a metadata document that holds \<open>{oops\<close>.
\<close>

theorem malformed_metadata_falls_back_witness:
  "resolve_target ex_bad_meta_dir = ''sales''
   \<and> pending (startup ex_bad_meta_dir False) = [ReadStream ''sales_data.csv'' ''sales'']"
proof -
  let ?s = "\<lparr>salesData = [], currentDataFile = ''sales_data.csv'', model_dir = ex_bad_meta_dir,
             venv_python = False, pending = []\<rparr>"
  have a: "map_of (model_dir ?s) ''model_metadata.json''
      = Some \<lparr>unlinkable = True, text_of = Some ''{oops'', records = []\<rparr>"
    by (simp add: ex_bad_meta_dir_def)
  have b: "text_of \<lparr>unlinkable = True, text_of = Some ''{oops'', records = []\<rparr> = None
      \<or> (\<exists>txt. text_of \<lparr>unlinkable = True, text_of = Some ''{oops'', records = []\<rparr> = Some txt
             \<and> (json_parse txt = None \<or> json_parse txt = Some JNull))"
    by (simp add: ex_bad_meta_parse)
  have ex: "existsSync ex_bad_meta_dir ''sales_data.csv''"
    by (simp add: existsSync_def ex_bad_meta_dir_def)
  from malformed_metadata_falls_back [OF a b] ex show ?thesis
    by (simp add: startup_def)
qed

lemma get_prop_assign:
  "k \<noteq> ''__proto__'' \<Longrightarrow> get_prop (assign k v r) k' = (if k' = k then v else get_prop r k')"
  by (simp add: get_prop_def assign_def update_conv')

lemma get_prop_map_date_other: "k \<noteq> ''date'' \<Longrightarrow> get_prop (map_date r) k = get_prop r k"
  by (simp add: map_date_def get_prop_assign split: option.splits)

lemma get_prop_map_target_other:
  "k \<noteq> ''sales'' \<Longrightarrow> get_prop (map_target t r) k = get_prop r k"
  by (simp add: map_target_def get_prop_assign)

lemma get_prop_map_target_sales:
  "get_prop (map_target t r) ''sales'' =
     (if get_prop r t \<noteq> Undefined then Num (parseFloat_val (get_prop r t))
      else if truthy (get_prop r ''sales'') then Num (parseFloat_val (get_prop r ''sales''))
      else get_prop r ''sales'')"
  by (simp add: map_target_def get_prop_assign)

lemma get_prop_map_legacy_other:
  "k \<noteq> ''marketing_spend'' \<Longrightarrow> k \<noteq> ''holiday'' \<Longrightarrow> get_prop (map_legacy r) k = get_prop r k"
  by (simp add: map_legacy_def Let_def get_prop_assign)

lemma normalize_date: "get_prop (normalize_row t raw) ''date'' = get_prop (map_date (object_of raw)) ''date''"
  by (simp add: normalize_row_def get_prop_map_legacy_other get_prop_map_target_other)

lemma normalize_sales:
  "get_prop (normalize_row t raw) ''sales'' =
     (if get_prop (map_date (object_of raw)) t \<noteq> Undefined
      then Num (parseFloat_val (get_prop (map_date (object_of raw)) t))
      else if truthy (get_prop (object_of raw) ''sales'')
      then Num (parseFloat_val (get_prop (object_of raw) ''sales''))
      else get_prop (object_of raw) ''sales'')"
  by (simp add: normalize_row_def get_prop_map_legacy_other get_prop_map_target_sales
      get_prop_map_date_other)

text \<open>Every cell of a row is a string until the target is parsed.\<close>

lemma assign_strs:
  assumes "\<And>k v. map_of r k = Some v \<Longrightarrow> \<exists>s. v = Str s"
    and "map_of (assign k0 (Str c) r) k = Some v"
  shows "\<exists>s. v = Str s"
  using assms by (auto simp: assign_def update_conv' split: if_splits)

lemma foldl_assign_strs:
  assumes "\<And>k v. map_of acc k = Some v \<Longrightarrow> \<exists>s. v = Str s"
    and "map_of (foldl (\<lambda>r (k, cell). assign k (Str cell) r) acc raw) k = Some v"
  shows "\<exists>s. v = Str s"
  using assms
proof (induction raw arbitrary: acc)
  case Nil
  then show ?case by simp
next
  case (Cons p raw)
  obtain k0 c where p: "p = (k0, c)" by (cases p)
  show ?case
  proof (rule Cons.IH [of "assign k0 (Str c) acc"])
    show "\<exists>s. v' = Str s" if "map_of (assign k0 (Str c) acc) k' = Some v'" for k' v'
      using Cons.prems(1) that by (rule assign_strs)
    show "map_of (foldl (\<lambda>r (k, cell). assign k (Str cell) r) (assign k0 (Str c) acc) raw) k = Some v"
      using Cons.prems(2) by (simp add: p)
  qed
qed

lemma object_of_strs: "map_of (object_of raw) k = Some v \<Longrightarrow> \<exists>s. v = Str s"
  unfolding object_of_def by (rule foldl_assign_strs [of "[]"]) simp_all

lemma find_in_keys: "find P (map fst r) = Some k \<Longrightarrow> map_of r k \<noteq> None"
proof -
  assume "find P (map fst r) = Some k"
  then have "k \<in> set (map fst r)"
    by (auto simp: find_Some_iff)
  then show ?thesis
    by (simp add: map_of_eq_None_iff)
qed

lemma map_date_strs:
  assumes "map_of (map_date (object_of raw)) k = Some v"
  shows "\<exists>s. v = Str s"
proof (cases "map_date (object_of raw) = object_of raw")
  case True
  then show ?thesis using assms object_of_strs by simp
next
  case False
  then obtain dk where dk: "find date_like (map fst (object_of raw)) = Some dk"
    and md: "map_date (object_of raw) = assign ''date'' (get_prop (object_of raw) dk) (object_of raw)"
    by (auto simp: map_date_def split: option.splits if_splits)
  from find_in_keys [OF dk] obtain w where w: "map_of (object_of raw) dk = Some w" by auto
  then obtain c where "w = Str c" using object_of_strs by blast
  with w have "get_prop (object_of raw) dk = Str c" by (simp add: get_prop_def)
  with md assms have "map_of (assign ''date'' (Str c) (object_of raw)) k = Some v" by simp
  then show ?thesis
    using object_of_strs by (rule assign_strs [rotated]) 
qed

lemma date_is_string:
  "get_prop (map_date (object_of raw)) ''date'' = Undefined
   \<or> (\<exists>s. get_prop (map_date (object_of raw)) ''date'' = Str s)"
  using map_date_strs [of raw "''date''"]
  by (auto simp: get_prop_def object_prototype_keys_def split: option.splits)

lemma sales_is_string:
  "get_prop (object_of raw) ''sales'' = Undefined \<or> (\<exists>s. get_prop (object_of raw) ''sales'' = Str s)"
  using object_of_strs [of raw "''sales''"]
  by (auto simp: get_prop_def object_prototype_keys_def split: option.splits)

text \<open>
  C5. With a metadata document that declares \<open>target_column = "revenue"\<close>, the loader
  resolves \<open>revenue\<close> and creates the read stream with it. For a record that has a
  \<open>revenue\<close> column, the \<open>sales\<close> field of the normalised row is the floating-point parse
  of the \<open>revenue\<close> cell, whether or not the record has a \<open>sales\<close> column too; the
  literal \<open>sales\<close> cell is parsed only for a record without a \<open>revenue\<close> column. The
  normalised row is what the \<open>'data'\<close> callback appends to the cache.
\<close>

theorem target_column_precedence:
  assumes "map_of (model_dir s) ''model_metadata.json'' = Some f"
    and "text_of f = Some txt"
    and "json_parse txt = Some (JObject kvs)"
    and "map_of kvs ''target_column'' = Some (JString ''revenue'')"
  shows "resolve_target (model_dir s) = ''revenue''
       \<and> (existsSync (model_dir s) (currentDataFile s) \<longrightarrow>
            loadData s = s\<lparr>pending := pending s @ [ReadStream (currentDataFile s) ''revenue'']\<rparr>)
       \<and> (map_of (object_of raw) ''revenue'' = Some (Str rv) \<longrightarrow>
            get_prop (normalize_row (resolve_target (model_dir s)) raw) ''sales'' = Num (parseFloat rv))
       \<and> (map_of (object_of raw) ''revenue'' = None
            \<and> map_of (object_of raw) ''sales'' = Some (Str sv) \<and> sv \<noteq> [] \<longrightarrow>
            get_prop (normalize_row (resolve_target (model_dir s)) raw) ''sales'' = Num (parseFloat sv))
       \<and> on_data (resolve_target (model_dir s)) cache raw =
            (if keep (normalize_row ''revenue'' raw) then cache @ [normalize_row ''revenue'' raw]
             else cache)"
proof -
  have t: "resolve_target (model_dir s) = ''revenue''"
    using assms by (simp add: resolve_target_def json_truthy_def)
  have present: "get_prop (normalize_row ''revenue'' raw) ''sales'' = Num (parseFloat rv)"
    if "map_of (object_of raw) ''revenue'' = Some (Str rv)"
  proof -
    have "get_prop (map_date (object_of raw)) ''revenue'' = get_prop (object_of raw) ''revenue''"
      by (simp add: get_prop_map_date_other)
    with that have "get_prop (map_date (object_of raw)) ''revenue'' = Str rv"
      by (simp add: get_prop_def)
    then show ?thesis
      by (simp add: normalize_sales parseFloat_val_def)
  qed
  have absent: "get_prop (normalize_row ''revenue'' raw) ''sales'' = Num (parseFloat sv)"
    if "map_of (object_of raw) ''revenue'' = None"
      and "map_of (object_of raw) ''sales'' = Some (Str sv)" and "sv \<noteq> []"
  proof -
    have "get_prop (map_date (object_of raw)) ''revenue'' = get_prop (object_of raw) ''revenue''"
      by (simp add: get_prop_map_date_other)
    with that(1) have "get_prop (map_date (object_of raw)) ''revenue'' = Undefined"
      by (simp add: get_prop_def object_prototype_keys_def)
    moreover from that(2) have "get_prop (object_of raw) ''sales'' = Str sv"
      by (simp add: get_prop_def)
    ultimately show ?thesis
      using that(3) by (simp add: normalize_sales parseFloat_val_def truthy_def)
  qed
  show ?thesis
    using present absent by (simp add: t loadData_def on_data_def Let_def)
qed

lemma ex_revenue_meta_parse:
  "json_parse ex_revenue_meta = Some (JObject [(''target_column'', JString ''revenue'')])"
  by code_simp

lemma ex_revenue_row_object:
  "object_of ex_revenue_row =
     [(''order_date'', Str ''2025-03-01''), (''revenue'', Str ''12.5''), (''sales'', Str ''7''),
      (''region'', Str ''North'')]"
  by code_simp

lemma ex_revenue_parse: "parseFloat ''12.5'' = Fin 125 (- 1)"
  by code_simp

text \<open>
  The theorem at a record with \<open>revenue = 12.5\<close> and \<open>sales = 7\<close>.
\<close>

theorem target_column_precedence_witness:
  "resolve_target [(''model_metadata.json'',
        \<lparr>unlinkable = True, text_of = Some ex_revenue_meta, records = []\<rparr>)] = ''revenue''
   \<and> get_prop (normalize_row (resolve_target [(''model_metadata.json'',
        \<lparr>unlinkable = True, text_of = Some ex_revenue_meta, records = []\<rparr>)]) ex_revenue_row) ''sales''
      = Num (Fin 125 (- 1))"
proof -
  let ?f = "\<lparr>unlinkable = True, text_of = Some ex_revenue_meta, records = []\<rparr>"
  let ?s = "ex_server\<lparr>model_dir := [(''model_metadata.json'', ?f)]\<rparr>"
  have a: "map_of (model_dir ?s) ''model_metadata.json'' = Some ?f" by simp
  have b: "text_of ?f = Some ex_revenue_meta" by simp
  have c: "map_of [(''target_column'', JString ''revenue'')] ''target_column''
      = Some (JString ''revenue'')" by simp
  have d: "map_of (object_of ex_revenue_row) ''revenue'' = Some (Str ''12.5'')"
    by (simp add: ex_revenue_row_object)
  note inst = target_column_precedence [OF a b ex_revenue_meta_parse c, of ex_revenue_row "''12.5''"]
  from inst have r: "resolve_target [(''model_metadata.json'', ?f)] = ''revenue''"
    by simp
  from inst d have "get_prop (normalize_row (resolve_target (model_dir ?s)) ex_revenue_row) ''sales''
      = Num (parseFloat ''12.5'')"
    by blast
  with r show ?thesis by (simp add: ex_revenue_parse)
qed

text \<open>
  C4, as the code has it. Leaving aside a record whose declared target column is absent
  while its literal \<open>sales\<close> cell is present and empty: the record is kept exactly when
  its resolved date is non-empty and the parse of its resolved target is not NaN. A kept
  record has a non-empty string as \<open>date\<close> and that parse as \<open>sales\<close>; a record with
  neither a \<open>date\<close> value nor a column whose name contains \<open>date\<close> or \<open>time\<close> is
  dropped. The guard is \<open>!isNaN\<close>, so the number may be an infinity.
\<close>

theorem row_filter:
  assumes "\<not> (get_prop (map_date (object_of raw)) t = Undefined
              \<and> get_prop (object_of raw) ''sales'' = Str [])"
  shows "(keep (normalize_row t raw) \<longleftrightarrow>
            truthy (get_prop (map_date (object_of raw)) ''date'')
            \<and> spec_resolved_target t (map_date (object_of raw)) \<noteq> NaN)
       \<and> (keep (normalize_row t raw) \<longrightarrow>
            (\<exists>d. d \<noteq> [] \<and> get_prop (normalize_row t raw) ''date'' = Str d)
            \<and> get_prop (normalize_row t raw) ''sales'' = Num (spec_resolved_target t (map_date (object_of raw))))
       \<and> (\<not> truthy (get_prop (object_of raw) ''date'')
            \<and> find date_like (map fst (object_of raw)) = None \<longrightarrow> \<not> keep (normalize_row t raw))
       \<and> on_data t cache raw =
            (if keep (normalize_row t raw) then cache @ [normalize_row t raw] else cache)"
proof -
  let ?o = "object_of raw"
  let ?od = "map_date ?o"
  let ?r = "normalize_row t raw"
  have sales_od: "get_prop ?od ''sales'' = get_prop ?o ''sales''"
    by (simp add: get_prop_map_date_other)
  have nan_iff: "\<not> isNaN (get_prop ?r ''sales'') \<longleftrightarrow> spec_resolved_target t ?od \<noteq> NaN"
  proof (cases "get_prop ?od t \<noteq> Undefined")
    case True
    then show ?thesis
      by (simp add: normalize_sales spec_resolved_target_def isNaN_def to_number_def)
  next
    case tabs: False
    show ?thesis
    proof (cases "truthy (get_prop ?o ''sales'')")
      case True
      with tabs show ?thesis
        by (simp add: normalize_sales spec_resolved_target_def isNaN_def to_number_def sales_od)
    next
      case False
      with sales_is_string [of raw] assms tabs
      have "get_prop ?o ''sales'' = Undefined"
        by (auto simp: truthy_def)
      with tabs False show ?thesis
        by (simp add: normalize_sales spec_resolved_target_def isNaN_def to_number_def sales_od)
    qed
  qed
  have iff: "keep ?r \<longleftrightarrow> truthy (get_prop ?od ''date'') \<and> spec_resolved_target t ?od \<noteq> NaN"
    by (simp add: keep_def normalize_date nan_iff)
  have incl: "(\<exists>d. d \<noteq> [] \<and> get_prop ?r ''date'' = Str d)
      \<and> get_prop ?r ''sales'' = Num (spec_resolved_target t ?od)" if k: "keep ?r"
  proof -
    from k iff have d: "truthy (get_prop ?od ''date'')" and n: "spec_resolved_target t ?od \<noteq> NaN"
      by simp_all
    from d date_is_string [of raw] have "\<exists>d. d \<noteq> [] \<and> get_prop ?od ''date'' = Str d"
      by (auto simp: truthy_def)
    moreover from n have "get_prop ?r ''sales'' = Num (spec_resolved_target t ?od)"
      by (auto simp: normalize_sales spec_resolved_target_def sales_od split: if_splits)
    ultimately show ?thesis by (simp add: normalize_date)
  qed
  have nodate: "\<not> keep ?r"
    if "\<not> truthy (get_prop ?o ''date'') \<and> find date_like (map fst ?o) = None"
  proof -
    from that have "?od = ?o" by (simp add: map_date_def)
    with that iff show ?thesis by simp
  qed
  show ?thesis
    using iff incl nodate by (simp add: on_data_def Let_def)
qed

text \<open>
  The theorem at a record that is kept and at one without any date-like column.
\<close>

theorem row_filter_witness:
  "keep (normalize_row ''revenue'' ex_revenue_row)
   \<and> get_prop (normalize_row ''revenue'' ex_revenue_row) ''sales'' = Num (Fin 125 (- 1))
   \<and> \<not> keep (normalize_row ''revenue'' [(''region'', ''North''), (''revenue'', ''12.5'')])"
proof -
  have obj: "map_date (object_of ex_revenue_row) =
     [(''order_date'', Str ''2025-03-01''), (''revenue'', Str ''12.5''), (''sales'', Str ''7''),
      (''region'', Str ''North''), (''date'', Str ''2025-03-01'')]"
    by code_simp
  have a: "\<not> (get_prop (map_date (object_of ex_revenue_row)) ''revenue'' = Undefined
              \<and> get_prop (object_of ex_revenue_row) ''sales'' = Str [])"
    by (simp add: obj get_prop_def)
  have rt: "spec_resolved_target ''revenue'' (map_date (object_of ex_revenue_row)) = Fin 125 (- 1)"
    by (simp add: obj spec_resolved_target_def get_prop_def parseFloat_val_def ex_revenue_parse)
  have d: "truthy (get_prop (map_date (object_of ex_revenue_row)) ''date'')"
    by (simp add: obj get_prop_def truthy_def)
  have obj2: "object_of [(''region'', ''North''), (''revenue'', ''12.5'')] =
     [(''region'', Str ''North''), (''revenue'', Str ''12.5'')]"
    by code_simp
  have nd: "find date_like (map fst (object_of [(''region'', ''North''), (''revenue'', ''12.5'')])) = None"
    by code_simp
  have b: "\<not> (get_prop (map_date (object_of [(''region'', ''North''), (''revenue'', ''12.5'')])) ''revenue'' = Undefined
              \<and> get_prop (object_of [(''region'', ''North''), (''revenue'', ''12.5'')]) ''sales'' = Str [])"
    by (simp add: obj2 get_prop_def object_prototype_keys_def)
  have nt: "\<not> truthy (get_prop (object_of [(''region'', ''North''), (''revenue'', ''12.5'')]) ''date'')"
    by (simp add: obj2 get_prop_def object_prototype_keys_def truthy_def)
  from row_filter [OF a] rt d
  have "keep (normalize_row ''revenue'' ex_revenue_row)
      \<and> get_prop (normalize_row ''revenue'' ex_revenue_row) ''sales'' = Num (Fin 125 (- 1))"
    by simp
  moreover from row_filter [OF b] nt nd
  have "\<not> keep (normalize_row ''revenue'' [(''region'', ''North''), (''revenue'', ''12.5'')])"
    by blast
  ultimately show ?thesis by simp
qed

text \<open>
  C4 as stated fails: a record whose target cell is \<open>Infinity\<close> is kept, and its
  \<open>sales\<close> value is not a finite number.
\<close>

theorem infinite_sales_is_kept:
  "keep (normalize_row ''sales'' [(''date'', ''2024-01-01''), (''sales'', ''Infinity'')])
   \<and> normalize_row ''sales'' [(''date'', ''2024-01-01''), (''sales'', ''Infinity'')]
      = [(''date'', Str ''2024-01-01''), (''sales'', Num PosInfinity)]
   \<and> on_data ''sales'' [] [(''date'', ''2024-01-01''), (''sales'', ''Infinity'')]
      = [[(''date'', Str ''2024-01-01''), (''sales'', Num PosInfinity)]]"
  by code_simp

text \<open>
  The case left aside above: line 49 skips the empty \<open>sales\<close> cell, and
  \<open>isNaN('')\<close> is false, so the record is kept with the unparsed empty string.
\<close>

lemma empty_sales_is_kept:
  "keep (normalize_row ''revenue'' [(''date'', ''2024-01-01''), (''sales'', [])])
   \<and> get_prop (normalize_row ''revenue'' [(''date'', ''2024-01-01''), (''sales'', [])]) ''sales''
      = Str []"
  by code_simp

end
